theory Spec2Isabelle
  imports Main
begin

section \<open>Data model (src/types.ts)\<close>

text \<open>
  JavaScript strings are modelled as \<^typ>\<open>string\<close>: a list of code units, each below 256.
  JavaScript numbers that hold line numbers and counters are modelled as \<^typ>\<open>int\<close> or
  \<^typ>\<open>nat\<close>; the rounding of integers of 2^53 and more to doubles is not represented.
  The field \<open>file\<close> of a ClarityFunction is named \<open>sourceFile\<close> here. The field
  \<open>type\<close> holds the text of the first capture group, as the source stores it.
\<close>

record ClarityFunction =
  name :: string
  type :: string
  startLine :: nat
  endLine :: nat
  content :: string
  sourceFile :: string

datatype ChangeType = added | modified | deleted

record ChangedFunction = ClarityFunction +
  changeType :: ChangeType

record FailureDetails =
  functionName :: string
  lineNumber :: int
  title :: string
  failingCode :: string

record ESBMCResult =
  verified :: bool
  failures :: "FailureDetails list"
  rawOutput :: string
  clarityFile :: string
  resultFunctionName :: string

record Region =
  startLine :: int
  startColumn :: "int option"

record PhysicalLocation =
  artifactLocationUri :: string
  region :: Region

text \<open>
  \<open>titleMap[title]\<close> reads a property of an object literal, so a title that names a
  property inherited from \<open>Object.prototype\<close> yields that inherited (truthy, non-string)
  value instead of the default rule id. \<open>InheritedProperty\<close> stands for such a value.
\<close>

datatype RuleId = RuleString string | InheritedProperty string

record SARIFResult =
  ruleId :: RuleId
  messageText :: string
  locations :: "PhysicalLocation list"

section \<open>String primitives of the JavaScript runtime\<close>

text \<open>
  White space as \<open>String.prototype.trim\<close> and the class \<open>\s\<close> read it, among the code
  units below 256: tab, line feed, vertical tab, form feed, carriage return, space and
  the no-break space.
\<close>

definition isWhiteSpace :: "char \<Rightarrow> bool" where
  "isWhiteSpace c =
     (c = CHR 0x09 \<or> c = CHR 0x0A \<or> c = CHR 0x0B \<or> c = CHR 0x0C \<or> c = CHR 0x0D
      \<or> c = CHR 0x20 \<or> c = CHR 0xA0)"

definition isDigit :: "char \<Rightarrow> bool" where
  "isDigit c = (48 \<le> (of_char c :: nat) \<and> (of_char c :: nat) \<le> 57)"

definition trim :: "string \<Rightarrow> string" where
  "trim s = rev (dropWhile isWhiteSpace (rev (dropWhile isWhiteSpace s)))"

text \<open>\<open>s.split(sep)\<close> for a separator of one character: never an empty array.\<close>

fun split_str :: "char \<Rightarrow> string \<Rightarrow> string list" where
  "split_str sep [] = [[]]"
| "split_str sep (c # cs) =
     (if c = sep then [] # split_str sep cs
      else (case split_str sep cs of [] \<Rightarrow> [[c]] | l # ls \<Rightarrow> (c # l) # ls))"

definition startsWith :: "string \<Rightarrow> string \<Rightarrow> bool" where
  "startsWith s p = (take (length p) s = p)"

fun includes_str :: "string \<Rightarrow> string \<Rightarrow> bool" where
  "includes_str [] p = (p = [])"
| "includes_str (c # cs) p = (startsWith (c # cs) p \<or> includes_str cs p)"

text \<open>
  \<open>parseInt(s, 10)\<close> on the text of a \<open>(\d+)\<close> group: the value of its decimal digits.
  (The source calls it on such texts only, so the NaN of a text without digits never
  arises.)
\<close>

definition parseInt :: "string \<Rightarrow> int" where
  "parseInt s = foldl (\<lambda>acc c. acc * 10 + (int (of_char c) - 48)) 0 (takeWhile isDigit s)"

definition newline :: char where
  "newline = CHR 0x0A"

text \<open>\<open>ls.join("\n")\<close>, used to write multi-line inputs.\<close>

definition joinLines :: "string list \<Rightarrow> string" where
  "joinLines ls = (case ls of [] \<Rightarrow> [] | l # rest \<Rightarrow> l @ concat (map (\<lambda>x. newline # x) rest))"

section \<open>Regular expressions: a backtracking matcher\<close>

text \<open>
  The two regular expressions of the source are sequences of literals, alternatives of
  literals and one-or-more repetitions (greedy or lazy) of a character class, some of them
  capture groups. The matcher follows the backtracking semantics of ECMAScript: every
  atom is matched against a continuation, a greedy repetition tries the longest run
  first, a lazy one the shortest, and an unanchored search tries every start index from
  the left.
\<close>

datatype cclass = WhiteSpace | NonWhiteSpace | Digit | AnyChar | NotCloseParen

fun inClass :: "cclass \<Rightarrow> char \<Rightarrow> bool" where
  "inClass WhiteSpace c = isWhiteSpace c"
| "inClass NonWhiteSpace c = (\<not> isWhiteSpace c)"
| "inClass Digit c = isDigit c"
| "inClass AnyChar c = (c \<noteq> CHR 0x0A \<and> c \<noteq> CHR 0x0D)"
| "inClass NotCloseParen c = (c \<noteq> CHR '')'')"

datatype atom = Lit string | Alt "string list" | PlusGreedy cclass | PlusLazy cclass

datatype rx = Plain atom | Capture atom

fun plusGreedy ::
  "cclass \<Rightarrow> string \<Rightarrow> string \<Rightarrow> (string \<Rightarrow> string \<Rightarrow> 'a option) \<Rightarrow> 'a option" where
  "plusGreedy cl acc [] k = None"
| "plusGreedy cl acc (c # cs) k =
     (if inClass cl c
      then (case plusGreedy cl (acc @ [c]) cs k of Some r \<Rightarrow> Some r | None \<Rightarrow> k (acc @ [c]) cs)
      else None)"

fun plusLazy ::
  "cclass \<Rightarrow> string \<Rightarrow> string \<Rightarrow> (string \<Rightarrow> string \<Rightarrow> 'a option) \<Rightarrow> 'a option" where
  "plusLazy cl acc [] k = None"
| "plusLazy cl acc (c # cs) k =
     (if inClass cl c
      then (case k (acc @ [c]) cs of Some r \<Rightarrow> Some r | None \<Rightarrow> plusLazy cl (acc @ [c]) cs k)
      else None)"

definition matchLit ::
  "string \<Rightarrow> string \<Rightarrow> (string \<Rightarrow> string \<Rightarrow> 'a option) \<Rightarrow> 'a option" where
  "matchLit p s k = (if startsWith s p then k p (drop (length p) s) else None)"

fun matchAlt ::
  "string list \<Rightarrow> string \<Rightarrow> (string \<Rightarrow> string \<Rightarrow> 'a option) \<Rightarrow> 'a option" where
  "matchAlt [] s k = None"
| "matchAlt (p # ps) s k =
     (case matchLit p s k of Some r \<Rightarrow> Some r | None \<Rightarrow> matchAlt ps s k)"

fun matchAtom ::
  "atom \<Rightarrow> string \<Rightarrow> (string \<Rightarrow> string \<Rightarrow> 'a option) \<Rightarrow> 'a option" where
  "matchAtom (Lit p) s k = matchLit p s k"
| "matchAtom (Alt ps) s k = matchAlt ps s k"
| "matchAtom (PlusGreedy cl) s k = plusGreedy cl [] s k"
| "matchAtom (PlusLazy cl) s k = plusLazy cl [] s k"

fun matchSeq :: "rx list \<Rightarrow> string \<Rightarrow> string list \<Rightarrow> (string list \<times> string) option" where
  "matchSeq [] s caps = Some (caps, s)"
| "matchSeq (Plain a # rs) s caps = matchAtom a s (\<lambda>m rest. matchSeq rs rest caps)"
| "matchSeq (Capture a # rs) s caps = matchAtom a s (\<lambda>m rest. matchSeq rs rest (caps @ [m]))"

text \<open>
  The match object: \<open>index\<close> is where the match starts, \<open>groups ! 0\<close> the matched text,
  \<open>groups ! n\<close> the text of the n-th capture group.
\<close>

record RegExpMatch =
  index :: nat
  groups :: "string list"

fun searchFrom :: "rx list \<Rightarrow> nat \<Rightarrow> string \<Rightarrow> RegExpMatch option" where
  "searchFrom r i s =
     (case matchSeq r s [] of
        Some (caps, rest) \<Rightarrow> Some \<lparr> index = i, groups = take (length s - length rest) s # caps \<rparr>
      | None \<Rightarrow> (case s of [] \<Rightarrow> None | c # cs \<Rightarrow> searchFrom r (Suc i) cs))"

text \<open>\<open>s.match(r)\<close> for a regular expression without flags.\<close>

definition match :: "string \<Rightarrow> rx list \<Rightarrow> RegExpMatch option" where
  "match s r = searchFrom r 0 s"

text \<open>
  What a match means, independently of the order in which the matcher tries the
  alternatives: the texts an atom accepts. Used to state that every match the matcher
  returns is a match of the regular expression.
\<close>

fun atomAccepts :: "atom \<Rightarrow> string \<Rightarrow> bool" where
  "atomAccepts (Lit p) m = (m = p)"
| "atomAccepts (Alt ps) m = (m \<in> set ps)"
| "atomAccepts (PlusGreedy cl) m = (m \<noteq> [] \<and> (\<forall>c \<in> set m. inClass cl c))"
| "atomAccepts (PlusLazy cl) m = (m \<noteq> [] \<and> (\<forall>c \<in> set m. inClass cl c))"

fun rxAtom :: "rx \<Rightarrow> atom" where
  "rxAtom (Plain a) = a"
| "rxAtom (Capture a) = a"

fun isCapture :: "rx \<Rightarrow> bool" where
  "isCapture (Plain a) = False"
| "isCapture (Capture a) = True"

section \<open>Model-checker output parser (\<open>parseESBMCOutput\<close>, \<open>parseFailingFunctions\<close>)\<close>

text \<open>\<open>/State\s+\d+\s+file\s+.+?\s+line\s+(\d+)\s+function\s+(\S+)\s+thread\s+\d+/\<close>\<close>

definition stateLineRegex :: "rx list" where
  "stateLineRegex =
     [Plain (Lit ''State''), Plain (PlusGreedy WhiteSpace), Plain (PlusGreedy Digit),
      Plain (PlusGreedy WhiteSpace), Plain (Lit ''file''), Plain (PlusGreedy WhiteSpace),
      Plain (PlusLazy AnyChar), Plain (PlusGreedy WhiteSpace), Plain (Lit ''line''),
      Plain (PlusGreedy WhiteSpace), Capture (PlusGreedy Digit), Plain (PlusGreedy WhiteSpace),
      Plain (Lit ''function''), Plain (PlusGreedy WhiteSpace), Capture (PlusGreedy NonWhiteSpace),
      Plain (PlusGreedy WhiteSpace), Plain (Lit ''thread''), Plain (PlusGreedy WhiteSpace),
      Plain (PlusGreedy Digit)]"

definition isFillerLine :: "string \<Rightarrow> bool" where
  "isFillerLine line = (trim line = [])"

text \<open>\<open>(lines[i] || "")\<close>: the empty string beyond the end of the array.\<close>

definition lineAt :: "string list \<Rightarrow> nat \<Rightarrow> string" where
  "lineAt lines i = (if i < length lines then lines ! i else [])"

text \<open>
  The inner \<open>while\<close> loops: from index \<open>i\<close>, step over filler lines; the loop variable
  \<open>nextLine\<close> (or \<open>codeLine\<close>) is \<open>trim (lineAt lines i)\<close> throughout.
\<close>

function skipFiller :: "string list \<Rightarrow> nat \<Rightarrow> nat" where
  "skipFiller lines i =
     (if i < length lines \<and> isFillerLine (trim (lineAt lines i))
      then skipFiller lines (Suc i) else i)"
  by pat_completeness auto
termination
  by (relation "measure (\<lambda>(lines, i). length lines - i)") auto

declare skipFiller.simps [simp del]

text \<open>\<open>s || d\<close> for a string \<open>s\<close>: the empty string is falsy.\<close>

definition orDefault :: "string \<Rightarrow> string \<Rightarrow> string" where
  "orDefault s d = (if s = [] then d else s)"

text \<open>
  The \<open>for\<close> loop of \<open>parseFailingFunctions\<close>, from index \<open>i\<close> with the loop's variables
  as arguments; \<open>None\<close> is \<open>undefined\<close>.
\<close>

function parseLoop ::
  "string list \<Rightarrow> nat \<Rightarrow> bool \<Rightarrow> string option \<Rightarrow> int option \<Rightarrow> FailureDetails list
     \<Rightarrow> FailureDetails list" where
  "parseLoop lines i inCounterexampleBlock currentFnName currentLineNumber results =
     (if i < length lines then
        (let line = trim (lines ! i) in
         if line = ''[Counterexample]''
         then parseLoop lines (Suc i) True currentFnName currentLineNumber results
         else if inCounterexampleBlock then
           (case match line stateLineRegex of
              Some m \<Rightarrow>
                parseLoop lines (Suc i) inCounterexampleBlock
                  (Some (groups m ! 2)) (Some (parseInt (groups m ! 1))) results
            | None \<Rightarrow>
                if startsWith line ''Violated property:'' then
                  (let i1 = skipFiller lines (Suc i);
                       nextLine = trim (lineAt lines i1);
                       title = orDefault nextLine ''unknown-property'';
                       i2 = skipFiller lines (Suc i1);
                       codeLine = trim (lineAt lines i2);
                       failingCode = orDefault codeLine ''unknown-failing-code''
                   in parseLoop lines (Suc i2) False currentFnName currentLineNumber
                        (results @
                           [\<lparr> functionName =
                                 (case currentFnName of Some n \<Rightarrow> n | None \<Rightarrow> ''unknown_function''),
                               lineNumber =
                                 (case currentLineNumber of Some n \<Rightarrow> n | None \<Rightarrow> - 1),
                               title = title, failingCode = failingCode \<rparr>]))
                else parseLoop lines (Suc i) inCounterexampleBlock currentFnName
                       currentLineNumber results)
         else parseLoop lines (Suc i) inCounterexampleBlock currentFnName currentLineNumber
                results)
      else results)"
  by pat_completeness auto
termination
proof (relation "measure (\<lambda>(lines, i, _). length lines - i)", simp_all, goal_cases)
  case (1 lines i inB x i1 nextLine title i2 codeLine failingCode)
  have ge: "j \<le> skipFiller ls j" for ls j
  proof (induction ls j rule: skipFiller.induct)
    case (1 ls k)
    then show ?case
      by (simp add: skipFiller.simps [of ls k] Suc_leD)
  qed
  have "Suc (Suc i) \<le> skipFiller lines (Suc (skipFiller lines (Suc i)))"
    using ge [of "Suc i" lines] ge [of "Suc (skipFiller lines (Suc i))" lines] by linarith
  with 1 show ?case by linarith
qed

declare parseLoop.simps [simp del]

definition parseFailingFunctions :: "string \<Rightarrow> FailureDetails list" where
  "parseFailingFunctions clarOutput =
     parseLoop (split_str newline clarOutput) 0 False None None []"

text \<open>The number of marker lines: lines that are \<open>[Counterexample]\<close> once trimmed.\<close>

definition markerCount :: "string list \<Rightarrow> nat" where
  "markerCount ls = length (filter (\<lambda>l. trim l = ''[Counterexample]'') ls)"

definition parseESBMCOutput :: "string \<Rightarrow> string \<Rightarrow> string \<Rightarrow> ESBMCResult" where
  "parseESBMCOutput output clarityFile' functionName' =
     (if includes_str output ''VERIFICATION SUCCESSFUL'' then
        \<lparr> verified = True, failures = [], rawOutput = output, clarityFile = clarityFile',
          resultFunctionName = functionName' \<rparr>
      else if includes_str output ''VERIFICATION FAILED'' then
        \<lparr> verified = False, failures = parseFailingFunctions output, rawOutput = output,
          clarityFile = clarityFile', resultFunctionName = functionName' \<rparr>
      else
        \<lparr> verified = False,
          failures = [\<lparr> functionName = functionName', lineNumber = - 1,
                        title = ''unknown-result'',
                        failingCode = ''ESBMC did not produce a clear verification result'' \<rparr>],
          rawOutput = output, clarityFile = clarityFile', resultFunctionName = functionName' \<rparr>)"

section \<open>Function boundary parser (\<open>parseClarityFunctions\<close>)\<close>

text \<open>\<open>/\(define-(public|private|read-only)\s+\(([^)]+)/\<close>\<close>

definition functionRegex :: "rx list" where
  "functionRegex =
     [Plain (Lit ''(define-''), Capture (Alt [''public'', ''private'', ''read-only'']),
      Plain (PlusGreedy WhiteSpace), Plain (Lit ''(''), Capture (PlusGreedy NotCloseParen)]"

text \<open>The two character loops: every \<open>(\<close> adds one to \<open>openParens\<close>, every \<open>)\<close> takes one.\<close>

fun countParens :: "string \<Rightarrow> int \<Rightarrow> int" where
  "countParens [] openParens = openParens"
| "countParens (c # cs) openParens =
     countParens cs
       (if c = CHR ''('' then openParens + 1 else if c = CHR '')'' then openParens - 1
        else openParens)"

text \<open>\<open>match[2].trim().split(" ")[0]\<close>\<close>

definition extractName :: "string \<Rightarrow> string" where
  "extractName g = (case split_str (CHR '' '') (trim g) of [] \<Rightarrow> [] | x # _ \<Rightarrow> x)"

text \<open>
  The variables of the loop of \<open>parseClarityFunctions\<close> (the array \<open>functions\<close> is
  the field \<open>functions'\<close>). \<open>currentFunction\<close> is a partial
  object in the source: its \<open>endLine\<close> is set only when the function is pushed, and is 0
  here until then.
\<close>

record ParserState =
  inFunction :: bool
  currentFunction :: ClarityFunction
  openParens :: int
  functionContent :: string
  functions' :: "ClarityFunction list"

definition initialParserState :: ParserState where
  "initialParserState =
     \<lparr> inFunction = False,
       currentFunction = \<lparr> name = [], type = [], startLine = 0, endLine = 0, content = [],
                           sourceFile = [] \<rparr>,
       openParens = 0, functionContent = [], functions' = [] \<rparr>"

text \<open>The body of the loop for the line \<open>line = lines[i]\<close>.\<close>

definition parseLine :: "string \<Rightarrow> nat \<Rightarrow> string \<Rightarrow> ParserState \<Rightarrow> ParserState" where
  "parseLine filePath i line st =
     (if \<not> inFunction st then
        (case match line functionRegex of
           None \<Rightarrow> st
         | Some m \<Rightarrow>
             (let cur = \<lparr> name = extractName (groups m ! 2), type = groups m ! 1,
                          startLine = i + 1, endLine = 0, content = line,
                          sourceFile = filePath \<rparr>;
                  depth = countParens (drop (index m + 1) line) 1
              in if depth = 0 then
                   (let done = cur \<lparr> endLine := i + 1, content := line \<rparr>
                    in st \<lparr> inFunction := False, currentFunction := done, openParens := depth,
                            functionContent := line, functions' := functions' st @ [done] \<rparr>)
                 else st \<lparr> inFunction := True, currentFunction := cur, openParens := depth,
                           functionContent := line \<rparr>))
      else
        (let fc = functionContent st @ [newline] @ line;
             depth = countParens line (openParens st)
         in if depth = 0 then
              (let done = (currentFunction st) \<lparr> endLine := i + 1, content := fc \<rparr>
               in st \<lparr> inFunction := False, currentFunction := done, openParens := depth,
                       functionContent := fc, functions' := functions' st @ [done] \<rparr>)
            else st \<lparr> openParens := depth, functionContent := fc \<rparr>))"

fun parseLines :: "string \<Rightarrow> nat \<Rightarrow> string list \<Rightarrow> ParserState \<Rightarrow> ParserState" where
  "parseLines filePath i [] st = st"
| "parseLines filePath i (line # rest) st =
     parseLines filePath (Suc i) rest (parseLine filePath i line st)"

definition parseClarityFunctions :: "string \<Rightarrow> string \<Rightarrow> ClarityFunction list" where
  "parseClarityFunctions content' filePath =
     functions' (parseLines filePath 0 (split_str newline content') initialParserState)"

text \<open>
  An invariant of the loop before line \<open>i\<close> (0-based): every function pushed so far, and
  the function being collected, starts at one of the first \<open>i\<close> lines.
\<close>

definition lineBound :: "nat \<Rightarrow> ParserState \<Rightarrow> bool" where
  "lineBound i st \<longleftrightarrow>
     (\<forall>f \<in> set (functions' st). ClarityFunction.startLine f \<le> i) \<and>
     (inFunction st \<longrightarrow> ClarityFunction.startLine (currentFunction st) \<le> i)"

section \<open>Change set comparator (\<open>compareAndIdentifyChanges\<close>)\<close>

text \<open>\<open>{ ...f, changeType: ct }\<close>\<close>

definition withChangeType :: "ClarityFunction \<Rightarrow> ChangeType \<Rightarrow> ChangedFunction" where
  "withChangeType f ct = ClarityFunction.extend f (ChangedFunction.fields ct)"

text \<open>The first loop: modified and deleted functions, in the order of the base functions.\<close>

fun modifiedAndDeleted :: "ClarityFunction list \<Rightarrow> ClarityFunction list \<Rightarrow> ChangedFunction list" where
  "modifiedAndDeleted [] headFunctions = []"
| "modifiedAndDeleted (baseFunc # rest) headFunctions =
     (case find (\<lambda>f. name f = name baseFunc) headFunctions of
        None \<Rightarrow> [withChangeType baseFunc deleted]
      | Some headFunc \<Rightarrow>
          if content baseFunc \<noteq> content headFunc then [withChangeType headFunc modified]
          else [])
     @ modifiedAndDeleted rest headFunctions"

text \<open>The second loop: added functions, in the order of the head functions.\<close>

fun addedFunctions :: "ClarityFunction list \<Rightarrow> ClarityFunction list \<Rightarrow> ChangedFunction list" where
  "addedFunctions baseFunctions [] = []"
| "addedFunctions baseFunctions (headFunc # rest) =
     (case find (\<lambda>f. name f = name headFunc) baseFunctions of
        None \<Rightarrow> [withChangeType headFunc added]
      | Some baseFunc \<Rightarrow> [])
     @ addedFunctions baseFunctions rest"

definition compareAndIdentifyChanges ::
  "ClarityFunction list \<Rightarrow> ClarityFunction list \<Rightarrow> ChangedFunction list" where
  "compareAndIdentifyChanges baseFunctions headFunctions =
     modifiedAndDeleted baseFunctions headFunctions @ addedFunctions baseFunctions headFunctions"

section \<open>Change detection (\<open>detectChangedFunctions\<close>)\<close>

text \<open>
  The collaborators of \<open>detectChangedFunctions\<close> that run git are parameters, and both
  are total, since the source catches their errors: \<open>getModifiedFiles\<close> (the empty list
  when git fails) and \<open>getFileContent\<close> (the empty string when the content cannot be
  read). The calls of the logger are left out: they do not change the result.

  The filter of the excluded contracts builds a regular expression from every pattern of
  the configuration, inside the callbacks of \<open>filter\<close> and \<open>some\<close>:
  \<open>new RegExp(pattern.replace(/\./g, "\\.").replace(/\*/g, ".*"))\<close> throws a SyntaxError on
  a pattern that is not a regular expression, nothing catches it, and the promise of
  \<open>detectChangedFunctions\<close> is then rejected. The parameter \<open>patternTest pattern file\<close>
  stands for the construction and the call of \<open>test\<close>: \<open>Inl\<close> is the throw, \<open>Inr\<close> the result
  of \<open>regex.test(file)\<close>.
\<close>

datatype error = SyntaxError string

text \<open>
  \<open>excludedContracts.some(...)\<close> for one file: the patterns in order, stopping at the first
  that matches or throws.
\<close>

fun somePattern :: "(string \<Rightarrow> string \<Rightarrow> error + bool) \<Rightarrow> string \<Rightarrow> string list \<Rightarrow> error + bool" where
  "somePattern patternTest file' [] = Inr False"
| "somePattern patternTest file' (pattern # rest) =
     (case patternTest pattern file' of
        Inl e \<Rightarrow> Inl e
      | Inr matched \<Rightarrow> if matched then Inr True else somePattern patternTest file' rest)"

text \<open>\<open>modifiedFiles.filter(...)\<close>: the files in order, stopping at the first throw.\<close>

fun filterFiles ::
  "(string \<Rightarrow> string \<Rightarrow> error + bool) \<Rightarrow> string list \<Rightarrow> string list \<Rightarrow> error + string list" where
  "filterFiles patternTest excludedContracts [] = Inr []"
| "filterFiles patternTest excludedContracts (file' # rest) =
     (case somePattern patternTest file' excludedContracts of
        Inl e \<Rightarrow> Inl e
      | Inr excluded \<Rightarrow>
          (case filterFiles patternTest excludedContracts rest of
             Inl e \<Rightarrow> Inl e
           | Inr kept \<Rightarrow> Inr (if \<not> excluded then file' # kept else kept)))"

definition detectFileChanges ::
  "(string \<Rightarrow> string \<Rightarrow> string) \<Rightarrow> string \<Rightarrow> string \<Rightarrow> string \<Rightarrow> ChangedFunction list" where
  "detectFileChanges getFileContent baseRef headRef file' =
     (let baseContent = getFileContent baseRef file';
          headContent = getFileContent headRef file'
      in if baseContent = [] then
           map (\<lambda>func. withChangeType func added) (parseClarityFunctions headContent file')
         else if headContent = [] then
           map (\<lambda>func. withChangeType func deleted) (parseClarityFunctions baseContent file')
         else compareAndIdentifyChanges (parseClarityFunctions baseContent file')
                (parseClarityFunctions headContent file'))"

fun detectLoop ::
  "(string \<Rightarrow> string \<Rightarrow> string) \<Rightarrow> string \<Rightarrow> string \<Rightarrow> string list \<Rightarrow> ChangedFunction list" where
  "detectLoop getFileContent baseRef headRef [] = []"
| "detectLoop getFileContent baseRef headRef (file' # rest) =
     detectFileChanges getFileContent baseRef headRef file'
     @ detectLoop getFileContent baseRef headRef rest"

text \<open>The result is \<open>Inl\<close> when the promise is rejected, \<open>Inr\<close> when it is fulfilled.\<close>

definition detectChangedFunctions ::
  "(string \<Rightarrow> string \<Rightarrow> string list \<Rightarrow> string list) \<Rightarrow> (string \<Rightarrow> string \<Rightarrow> string)
     \<Rightarrow> (string \<Rightarrow> string \<Rightarrow> error + bool) \<Rightarrow> string \<Rightarrow> string \<Rightarrow> string list \<Rightarrow> string list
     \<Rightarrow> error + ChangedFunction list" where
  "detectChangedFunctions getModifiedFiles getFileContent patternTest baseRef headRef
       contractsDir excludedContracts =
     (let modifiedFiles = getModifiedFiles baseRef headRef contractsDir
      in case filterFiles patternTest excludedContracts modifiedFiles of
           Inl e \<Rightarrow> Inl e
         | Inr filteredFiles \<Rightarrow> Inr (detectLoop getFileContent baseRef headRef filteredFiles))"

section \<open>Report generator (sarif generator, \<open>convertToSARIFResults\<close>)\<close>

definition objectPrototypeKeys :: "string list" where
  "objectPrototypeKeys =
     [''constructor'', ''toString'', ''toLocaleString'', ''valueOf'', ''hasOwnProperty'',
      ''isPrototypeOf'', ''propertyIsEnumerable'', ''__proto__'', ''__defineGetter__'',
      ''__defineSetter__'', ''__lookupGetter__'', ''__lookupSetter__'']"

definition titleMap :: "(string \<times> string) list" where
  "titleMap =
     [(''assertion'', ''clarity-verify-assertion''),
      (''arithmetic overflow'', ''clarity-verify-overflow''),
      (''arithmetic underflow'', ''clarity-verify-underflow''),
      (''division by zero'', ''clarity-verify-division-by-zero''),
      (''execution-error'', ''clarity-verify-execution-error'')]"

definition mapTitleToRuleId :: "string \<Rightarrow> RuleId" where
  "mapTitleToRuleId t =
     (case map_of titleMap t of
        Some r \<Rightarrow> RuleString r
      | None \<Rightarrow>
          if t \<in> set objectPrototypeKeys then InheritedProperty t
          else RuleString ''clarity-verify-unknown-error'')"

definition failureToSARIF :: "ESBMCResult \<Rightarrow> FailureDetails \<Rightarrow> SARIFResult" where
  "failureToSARIF result failure =
     \<lparr> ruleId = mapTitleToRuleId (title failure),
       messageText = ''Verification failed in function '' @ [CHR 0x27] @ functionName failure
                     @ [CHR 0x27] @ '': '' @ failingCode failure,
       locations =
         [\<lparr> artifactLocationUri = clarityFile result,
            region = \<lparr> startLine = (if lineNumber failure > 0 then lineNumber failure else 1),
                       startColumn = Some 1 \<rparr> \<rparr>] \<rparr>"

fun convertToSARIFResults :: "ESBMCResult list \<Rightarrow> SARIFResult list" where
  "convertToSARIFResults [] = []"
| "convertToSARIFResults (result # rest) =
     (if \<not> verified result then map (failureToSARIF result) (failures result) else [])
     @ convertToSARIFResults rest"

definition findingLine :: "SARIFResult \<Rightarrow> int list" where
  "findingLine r = map (\<lambda>l. startLine (region l)) (locations r)"

section \<open>Properties of the report generator\<close>

lemma convertToSARIFResults_concat:
  "convertToSARIFResults rs =
     concat (map (\<lambda>r. map (failureToSARIF r) (failures r)) (filter (\<lambda>r. \<not> verified r) rs))"
  by (induction rs) simp_all

lemma findingLine_failureToSARIF:
  "findingLine (failureToSARIF r f) = [if lineNumber f > 0 then lineNumber f else 1]"
  by (simp add: findingLine_def failureToSARIF_def)

text \<open>
  Claim C9. For every list of verification results, the findings are produced, in order,
  from the failures of the non-verified results only; the line of each finding is the
  failure's line number when that is greater than 0 and 1 otherwise; and no finding
  carries a line that is 0 or negative.
\<close>

theorem convertToSARIFResults_line:
  "map findingLine (convertToSARIFResults rs) =
     concat (map (\<lambda>r. map (\<lambda>f. [if lineNumber f > 0 then lineNumber f else 1]) (failures r))
                 (filter (\<lambda>r. \<not> verified r) rs))
   \<and> (\<forall>s \<in> set (convertToSARIFResults rs). \<forall>l \<in> set (locations s). 1 \<le> startLine (region l))"
proof
  show "map findingLine (convertToSARIFResults rs) =
     concat (map (\<lambda>r. map (\<lambda>f. [if lineNumber f > 0 then lineNumber f else 1]) (failures r))
                 (filter (\<lambda>r. \<not> verified r) rs))"
    by (simp add: convertToSARIFResults_concat map_concat comp_def findingLine_failureToSARIF)
  show "\<forall>s \<in> set (convertToSARIFResults rs). \<forall>l \<in> set (locations s). 1 \<le> startLine (region l)"
    by (auto simp: convertToSARIFResults_concat failureToSARIF_def)
qed

theorem convertToSARIFResults_line_witness:
  "map findingLine (convertToSARIFResults
     [\<lparr> verified = False,
        failures = [\<lparr> functionName = ''deposit'', lineNumber = - 1, title = ''assertion'',
                      failingCode = ''x'' \<rparr>,
                    \<lparr> functionName = ''deposit'', lineNumber = 0, title = ''assertion'',
                      failingCode = ''y'' \<rparr>,
                    \<lparr> functionName = ''deposit'', lineNumber = 17, title = ''assertion'',
                      failingCode = ''z'' \<rparr>],
        rawOutput = ''VERIFICATION FAILED'', clarityFile = ''sample.clar'',
        resultFunctionName = ''deposit'' \<rparr>,
      \<lparr> verified = True,
        failures = [\<lparr> functionName = ''get-balance'', lineNumber = 30, title = ''assertion'',
                      failingCode = ''w'' \<rparr>],
        rawOutput = ''VERIFICATION SUCCESSFUL'', clarityFile = ''sample.clar'',
        resultFunctionName = ''get-balance'' \<rparr>])
   = [[1], [1], [17]]"
  using convertToSARIFResults_line
    [of "[\<lparr> verified = False,
        failures = [\<lparr> functionName = ''deposit'', lineNumber = - 1, title = ''assertion'',
                      failingCode = ''x'' \<rparr>,
                    \<lparr> functionName = ''deposit'', lineNumber = 0, title = ''assertion'',
                      failingCode = ''y'' \<rparr>,
                    \<lparr> functionName = ''deposit'', lineNumber = 17, title = ''assertion'',
                      failingCode = ''z'' \<rparr>],
        rawOutput = ''VERIFICATION FAILED'', clarityFile = ''sample.clar'',
        resultFunctionName = ''deposit'' \<rparr>,
      \<lparr> verified = True,
        failures = [\<lparr> functionName = ''get-balance'', lineNumber = 30, title = ''assertion'',
                      failingCode = ''w'' \<rparr>],
        rawOutput = ''VERIFICATION SUCCESSFUL'', clarityFile = ''sample.clar'',
        resultFunctionName = ''get-balance'' \<rparr>]"]
  by simp

section \<open>Properties of the string primitives\<close>

lemma startsWith_iff: "startsWith s p \<longleftrightarrow> (\<exists>post. s = p @ post)"
  unfolding startsWith_def
  by (metis append_eq_conv_conj append_take_drop_id)

lemma includes_str_iff: "includes_str s p \<longleftrightarrow> (\<exists>pre post. s = pre @ p @ post)"
proof (induction s)
  case Nil
  then show ?case by auto
next
  case (Cons c cs)
  show ?case
  proof
    assume "includes_str (c # cs) p"
    then consider "startsWith (c # cs) p" | "includes_str cs p" by auto
    then show "\<exists>pre post. c # cs = pre @ p @ post"
    proof cases
      case 1
      then obtain post where "c # cs = p @ post" by (auto simp: startsWith_iff)
      then have "c # cs = [] @ p @ post" by simp
      then show ?thesis by blast
    next
      case 2
      then obtain pre post where "cs = pre @ p @ post" using Cons.IH by blast
      then have "c # cs = (c # pre) @ p @ post" by simp
      then show ?thesis by blast
    qed
  next
    assume "\<exists>pre post. c # cs = pre @ p @ post"
    then obtain pre post where eq: "c # cs = pre @ p @ post" by blast
    show "includes_str (c # cs) p"
    proof (cases pre)
      case Nil
      then have "startsWith (c # cs) p" using eq by (auto simp: startsWith_iff)
      then show ?thesis by simp
    next
      case (Cons a pre')
      then have "cs = pre' @ p @ post" using eq by simp
      then have "includes_str cs p" using Cons.IH by blast
      then show ?thesis by simp
    qed
  qed
qed

lemma trim_Nil [simp]: "trim [] = []"
  by (simp add: trim_def)

lemma trim_trim [simp]: "trim (trim s) = trim s"
proof -
  define u where "u = dropWhile isWhiteSpace s"
  define v where "v = dropWhile isWhiteSpace (rev u)"
  have t: "trim s = rev v" by (simp add: trim_def u_def v_def)
  have v_hd: "v = [] \<or> \<not> isWhiteSpace (hd v)"
    unfolding v_def by (metis hd_dropWhile)
  have u_hd: "u = [] \<or> \<not> isWhiteSpace (hd u)"
    unfolding u_def by (metis hd_dropWhile)
  obtain w where w: "rev u = w @ v"
    unfolding v_def by (metis takeWhile_dropWhile_id)
  then have u: "u = rev v @ rev w" by (metis rev_append rev_rev_ident)
  have "rev v = [] \<or> \<not> isWhiteSpace (hd (rev v))"
  proof (cases "v = []")
    case True then show ?thesis by simp
  next
    case False
    then have "hd (rev v) = hd u" using u by simp
    moreover have "u \<noteq> []" using u False by simp
    ultimately show ?thesis using u_hd by simp
  qed
  then have 1: "dropWhile isWhiteSpace (rev v) = rev v"
    by (simp add: dropWhile_eq_self_iff)
  have 2: "dropWhile isWhiteSpace v = v"
    using v_hd by (simp add: dropWhile_eq_self_iff)
  show ?thesis
    unfolding t by (simp add: trim_def 1 2)
qed

lemma isFillerLine_trim [simp]: "isFillerLine (trim s) = isFillerLine s"
  by (simp add: isFillerLine_def)

section \<open>Properties of the matcher\<close>

text \<open>
  Every match that the matcher returns splits the input into texts that the atoms accept,
  in order, and the capture groups are the texts of the capturing atoms. So a match of
  either regular expression of the source has exactly two groups: reading \<open>groups m ! 1\<close>
  and \<open>groups m ! 2\<close> is within range, the first group of a State line is a non-empty run
  of digits, and \<open>match[2]\<close> is always a string.
\<close>

lemma plusGreedy_SomeD:
  "plusGreedy cl acc s k = Some r \<Longrightarrow>
     \<exists>m rest. k (acc @ m) rest = Some r \<and> s = m @ rest \<and> m \<noteq> [] \<and> (\<forall>c \<in> set m. inClass cl c)"
proof (induction s arbitrary: acc)
  case Nil
  then show ?case by simp
next
  case (Cons c cs)
  then have c: "inClass cl c" by (simp split: if_splits)
  show ?case
  proof (cases "plusGreedy cl (acc @ [c]) cs k")
    case None
    then have "k (acc @ [c]) cs = Some r" using Cons.prems c by simp
    then show ?thesis using c by (intro exI [of _ "[c]"] exI [of _ cs]) simp
  next
    case (Some r')
    then have "r' = r" using Cons.prems c by simp
    then obtain m rest where "k ((acc @ [c]) @ m) rest = Some r" "cs = m @ rest"
      "\<forall>c \<in> set m. inClass cl c"
      using Cons.IH [of "acc @ [c]"] Some by blast
    then show ?thesis using c by (intro exI [of _ "c # m"] exI [of _ rest]) simp
  qed
qed

lemma plusLazy_SomeD:
  "plusLazy cl acc s k = Some r \<Longrightarrow>
     \<exists>m rest. k (acc @ m) rest = Some r \<and> s = m @ rest \<and> m \<noteq> [] \<and> (\<forall>c \<in> set m. inClass cl c)"
proof (induction s arbitrary: acc)
  case Nil
  then show ?case by simp
next
  case (Cons c cs)
  then have c: "inClass cl c" by (simp split: if_splits)
  show ?case
  proof (cases "k (acc @ [c]) cs")
    case (Some r')
    then have "r' = r" using Cons.prems c by simp
    then show ?thesis using c Some by (intro exI [of _ "[c]"] exI [of _ cs]) simp
  next
    case None
    then have "plusLazy cl (acc @ [c]) cs k = Some r" using Cons.prems c by simp
    then obtain m rest where "k ((acc @ [c]) @ m) rest = Some r" "cs = m @ rest"
      "\<forall>c \<in> set m. inClass cl c"
      using Cons.IH [of "acc @ [c]"] by blast
    then show ?thesis using c by (intro exI [of _ "c # m"] exI [of _ rest]) simp
  qed
qed

lemma matchLit_SomeD:
  "matchLit p s k = Some r \<Longrightarrow> \<exists>rest. k p rest = Some r \<and> s = p @ rest"
  by (auto simp: matchLit_def startsWith_iff split: if_splits)

lemma matchAlt_SomeD:
  "matchAlt ps s k = Some r \<Longrightarrow> \<exists>p rest. p \<in> set ps \<and> k p rest = Some r \<and> s = p @ rest"
proof (induction ps)
  case Nil
  then show ?case by simp
next
  case (Cons p ps)
  show ?case
  proof (cases "matchLit p s k")
    case None
    then show ?thesis using Cons by fastforce
  next
    case (Some r')
    then have "matchLit p s k = Some r" using Cons.prems by simp
    then show ?thesis using matchLit_SomeD [of p s k r] by fastforce
  qed
qed

lemma matchAtom_SomeD:
  "matchAtom a s k = Some r \<Longrightarrow> \<exists>m rest. k m rest = Some r \<and> s = m @ rest \<and> atomAccepts a m"
proof (cases a)
  case (Lit p)
  assume "matchAtom a s k = Some r"
  then show ?thesis using Lit matchLit_SomeD [of p s k r] by auto
next
  case (Alt ps)
  assume "matchAtom a s k = Some r"
  then show ?thesis using Alt matchAlt_SomeD [of ps s k r] by auto
next
  case (PlusGreedy cl)
  assume "matchAtom a s k = Some r"
  then show ?thesis using PlusGreedy plusGreedy_SomeD [of cl "[]" s k r] by auto
next
  case (PlusLazy cl)
  assume "matchAtom a s k = Some r"
  then show ?thesis using PlusLazy plusLazy_SomeD [of cl "[]" s k r] by auto
qed

lemma matchSeq_sound:
  "matchSeq rs s caps = Some (caps', rest) \<Longrightarrow>
     \<exists>ms. list_all2 (\<lambda>r m. atomAccepts (rxAtom r) m) rs ms \<and> s = concat ms @ rest \<and>
          caps' = caps @ map snd (filter (\<lambda>(r, m). isCapture r) (zip rs ms))"
proof (induction rs arbitrary: s caps)
  case Nil
  then show ?case by simp
next
  case (Cons r rs)
  show ?case
  proof (cases r)
    case (Plain a)
    then obtain m s' where m: "matchSeq rs s' caps = Some (caps', rest)" "s = m @ s'"
      "atomAccepts a m"
      using Cons.prems matchAtom_SomeD [of a s "\<lambda>m rest. matchSeq rs rest caps"] by auto
    from Cons.IH [OF m(1)] obtain ms where
      "list_all2 (\<lambda>r m. atomAccepts (rxAtom r) m) rs ms" "s' = concat ms @ rest"
      "caps' = caps @ map snd (filter (\<lambda>(r, m). isCapture r) (zip rs ms))" by blast
    then show ?thesis using m Plain by (intro exI [of _ "m # ms"]) simp
  next
    case (Capture a)
    then obtain m s' where m: "matchSeq rs s' (caps @ [m]) = Some (caps', rest)" "s = m @ s'"
      "atomAccepts a m"
      using Cons.prems matchAtom_SomeD [of a s "\<lambda>m rest. matchSeq rs rest (caps @ [m])"] by auto
    from Cons.IH [OF m(1)] obtain ms where
      "list_all2 (\<lambda>r m. atomAccepts (rxAtom r) m) rs ms" "s' = concat ms @ rest"
      "caps' = (caps @ [m]) @ map snd (filter (\<lambda>(r, m). isCapture r) (zip rs ms))" by blast
    then show ?thesis using m Capture by (intro exI [of _ "m # ms"]) simp
  qed
qed

lemma searchFrom_SomeD:
  "searchFrom r i s = Some m \<Longrightarrow>
     \<exists>pre s' caps rest. s = pre @ s' \<and> index m = i + length pre \<and>
        matchSeq r s' [] = Some (caps, rest) \<and>
        groups m = take (length s' - length rest) s' # caps"
proof (induction s arbitrary: i)
  case Nil
  then show ?case by (auto split: option.splits)
next
  case (Cons c cs)
  show ?case
  proof (cases "matchSeq r (c # cs) []")
    case (Some p)
    obtain caps rest where p: "p = (caps, rest)" by (cases p)
    then have "m = \<lparr> index = i, groups = take (length (c # cs) - length rest) (c # cs) # caps \<rparr>"
      using Cons.prems Some by simp
    then show ?thesis using Some p
      by (intro exI [of _ "[]"] exI [of _ "c # cs"] exI [of _ caps] exI [of _ rest]) simp
  next
    case None
    then have "searchFrom r (Suc i) cs = Some m" using Cons.prems by simp
    from Cons.IH [OF this] obtain pre s' caps rest where
      "cs = pre @ s'" "index m = Suc i + length pre" "matchSeq r s' [] = Some (caps, rest)"
      "groups m = take (length s' - length rest) s' # caps" by blast
    then show ?thesis
      by (intro exI [of _ "c # pre"] exI [of _ s'] exI [of _ caps] exI [of _ rest]) simp
  qed
qed

lemma match_stateLineRegex_groups:
  assumes "match s stateLineRegex = Some m"
  shows "\<exists>w g1 g2. groups m = [w, g1, g2] \<and> g1 \<noteq> [] \<and> (\<forall>c \<in> set g1. isDigit c) \<and>
           g2 \<noteq> [] \<and> (\<forall>c \<in> set g2. \<not> isWhiteSpace c)"
proof -
  from assms obtain s' caps rest where
    ms: "matchSeq stateLineRegex s' [] = Some (caps, rest)"
    and g: "groups m = take (length s' - length rest) s' # caps"
    unfolding match_def using searchFrom_SomeD by blast
  from matchSeq_sound [OF ms] obtain ms' where
    a: "list_all2 (\<lambda>r m. atomAccepts (rxAtom r) m) stateLineRegex ms'" and
    c: "caps = [] @ map snd (filter (\<lambda>(r, m). isCapture r) (zip stateLineRegex ms'))" by blast
  from a have "length ms' = 19" by (auto simp: stateLineRegex_def dest: list_all2_lengthD)
  then obtain m0 m1 m2 m3 m4 m5 m6 m7 m8 m9 m10 m11 m12 m13 m14 m15 m16 m17 m18
    where ms': "ms' = [m0, m1, m2, m3, m4, m5, m6, m7, m8, m9, m10, m11, m12, m13, m14, m15, m16, m17, m18]"
    by (auto simp: length_Suc_conv eval_nat_numeral)
  show ?thesis
    using a c g unfolding ms' stateLineRegex_def by simp
qed

lemma match_functionRegex_groups:
  assumes "match s functionRegex = Some m"
  shows "\<exists>w g1 g2. groups m = [w, g1, g2] \<and> g1 \<in> {''public'', ''private'', ''read-only''} \<and>
           g2 \<noteq> [] \<and> CHR '')'' \<notin> set g2"
proof -
  from assms obtain s' caps rest where
    ms: "matchSeq functionRegex s' [] = Some (caps, rest)"
    and g: "groups m = take (length s' - length rest) s' # caps"
    unfolding match_def using searchFrom_SomeD by blast
  from matchSeq_sound [OF ms] obtain ms' where
    a: "list_all2 (\<lambda>r m. atomAccepts (rxAtom r) m) functionRegex ms'" and
    c: "caps = [] @ map snd (filter (\<lambda>(r, m). isCapture r) (zip functionRegex ms'))" by blast
  from a have "length ms' = 5" by (auto simp: functionRegex_def dest: list_all2_lengthD)
  then obtain m0 m1 m2 m3 m4 where ms': "ms' = [m0, m1, m2, m3, m4]"
    by (auto simp: length_Suc_conv eval_nat_numeral)
  show ?thesis
    using a c g unfolding ms' functionRegex_def by auto
qed

section \<open>Properties of the output classifier\<close>

text \<open>
  Claim C2. Every raw output that contains the substring \<open>VERIFICATION SUCCESSFUL\<close>,
  whatever stands before and after it, is classified as verified with an empty list of
  failures.
\<close>

theorem parseESBMCOutput_successful:
  "(\<exists>pre post. output = pre @ ''VERIFICATION SUCCESSFUL'' @ post) \<Longrightarrow>
     verified (parseESBMCOutput output clarityFile' functionName') \<and>
     failures (parseESBMCOutput output clarityFile' functionName') = []"
  by (simp add: parseESBMCOutput_def includes_str_iff)

theorem parseESBMCOutput_successful_witness:
  "verified (parseESBMCOutput
      (''VERIFICATION FAILED'' @ [newline] @ ''VERIFICATION SUCCESSFUL'' @ [newline] @
       ''[Counterexample]'') ''sample.clar'' ''deposit'')
   \<and> failures (parseESBMCOutput
      (''VERIFICATION FAILED'' @ [newline] @ ''VERIFICATION SUCCESSFUL'' @ [newline] @
       ''[Counterexample]'') ''sample.clar'' ''deposit'') = []"
proof -
  have "\<exists>pre post. ''VERIFICATION FAILED'' @ [newline] @ ''VERIFICATION SUCCESSFUL'' @ [newline] @
       ''[Counterexample]'' = pre @ ''VERIFICATION SUCCESSFUL'' @ post"
    by (intro exI [of _ "''VERIFICATION FAILED'' @ [newline]"] exI [of _ "[newline] @ ''[Counterexample]''"])
      simp
  then show ?thesis
    by (rule parseESBMCOutput_successful)
qed

section \<open>Properties of the counterexample parser\<close>

lemma skipFiller_ge: "j \<le> skipFiller ls j"
proof (induction ls j rule: skipFiller.induct)
  case (1 ls k)
  then show ?case
    by (simp add: skipFiller.simps [of ls k] Suc_leD)
qed

lemma skipFiller_beyond: "length ls \<le> i \<Longrightarrow> skipFiller ls i = i"
  by (simp add: skipFiller.simps [of ls i])

lemma skipFiller_stop:
  "i < length ls \<Longrightarrow> \<not> isFillerLine (ls ! i) \<Longrightarrow> skipFiller ls i = i"
  by (simp add: skipFiller.simps [of ls i] lineAt_def)

lemma skipFiller_step:
  "i < length ls \<Longrightarrow> isFillerLine (ls ! i) \<Longrightarrow> skipFiller ls i = skipFiller ls (Suc i)"
  by (simp add: skipFiller.simps [of ls i] lineAt_def)

lemma skipFiller_to:
  assumes "i \<le> k" "k \<le> length ls" "\<forall>j. i \<le> j \<and> j < k \<longrightarrow> isFillerLine (ls ! j)"
  shows "skipFiller ls i = skipFiller ls k"
  using assms
proof (induction rule: inc_induct)
  case base
  then show ?case by simp
next
  case (step n)
  then have "skipFiller ls n = skipFiller ls (Suc n)"
    by (intro skipFiller_step) auto
  then show ?case using step by auto
qed

lemma markerCount_drop_mono: "j \<le> k \<Longrightarrow> markerCount (drop k ls) \<le> markerCount (drop j ls)"
proof -
  assume "j \<le> k"
  then have "drop j ls = take (k - j) (drop j ls) @ drop k ls"
    by (metis append_take_drop_id drop_drop le_add_diff_inverse2)
  then have "markerCount (drop j ls) = markerCount (take (k - j) (drop j ls)) + markerCount (drop k ls)"
    unfolding markerCount_def by (metis filter_append length_append)
  then show ?thesis by simp
qed

lemma parseLoop_end: "length ls \<le> i \<Longrightarrow> parseLoop ls i b fn ln rs = rs"
  by (simp add: parseLoop.simps [of ls i])

lemma parseLoop_marker:
  "i < length ls \<Longrightarrow> trim (ls ! i) = ''[Counterexample]'' \<Longrightarrow>
     parseLoop ls i b fn ln rs = parseLoop ls (Suc i) True fn ln rs"
  by (simp add: parseLoop.simps [of ls i])

lemma parseLoop_closed:
  "i < length ls \<Longrightarrow> trim (ls ! i) \<noteq> ''[Counterexample]'' \<Longrightarrow>
     parseLoop ls i False fn ln rs = parseLoop ls (Suc i) False fn ln rs"
  by (simp add: parseLoop.simps [of ls i])

lemma parseLoop_state:
  "i < length ls \<Longrightarrow> trim (ls ! i) \<noteq> ''[Counterexample]'' \<Longrightarrow>
   match (trim (ls ! i)) stateLineRegex = Some m \<Longrightarrow>
     parseLoop ls i True fn ln rs =
       parseLoop ls (Suc i) True (Some (groups m ! 2)) (Some (parseInt (groups m ! 1))) rs"
  by (simp add: parseLoop.simps [of ls i])

lemma parseLoop_other:
  "i < length ls \<Longrightarrow> trim (ls ! i) \<noteq> ''[Counterexample]'' \<Longrightarrow>
   match (trim (ls ! i)) stateLineRegex = None \<Longrightarrow>
   \<not> startsWith (trim (ls ! i)) ''Violated property:'' \<Longrightarrow>
     parseLoop ls i True fn ln rs = parseLoop ls (Suc i) True fn ln rs"
  by (simp add: parseLoop.simps [of ls i])

lemma startsWith_Violated_not_marker:
  "startsWith l ''Violated property:'' \<Longrightarrow> l \<noteq> ''[Counterexample]''"
  by (auto simp: startsWith_def)

lemma parseLoop_trigger:
  "i < length ls \<Longrightarrow> match (trim (ls ! i)) stateLineRegex = None \<Longrightarrow>
   startsWith (trim (ls ! i)) ''Violated property:'' \<Longrightarrow>
     parseLoop ls i True fn ln rs =
       parseLoop ls (Suc (skipFiller ls (Suc (skipFiller ls (Suc i))))) False fn ln
         (rs @ [\<lparr> functionName = (case fn of Some n \<Rightarrow> n | None \<Rightarrow> ''unknown_function''),
                  lineNumber = (case ln of Some n \<Rightarrow> n | None \<Rightarrow> - 1),
                  title = orDefault (trim (lineAt ls (skipFiller ls (Suc i)))) ''unknown-property'',
                  failingCode =
                    orDefault (trim (lineAt ls (skipFiller ls (Suc (skipFiller ls (Suc i))))))
                      ''unknown-failing-code'' \<rparr>])"
  using startsWith_Violated_not_marker [of "trim (ls ! i)"]
  by (simp add: parseLoop.simps [of ls i] Let_def)

lemma parseLoop_count:
  "length (parseLoop ls i b fn ln rs) \<le>
     length rs + (if b then 1 else 0) + markerCount (drop i ls)"
proof (induction ls i b fn ln rs rule: parseLoop.induct)
  case (1 ls i b fn ln rs)
  show ?case
  proof (cases "i < length ls")
    case False
    then show ?thesis by (simp add: parseLoop_end)
  next
    case lt: True
    then have dr: "drop i ls = ls ! i # drop (Suc i) ls"
      by (simp add: Cons_nth_drop_Suc)
    show ?thesis
    proof (cases "trim (ls ! i) = ''[Counterexample]''")
      case True
      then show ?thesis
        using "1.IH"(1) [OF lt refl True] parseLoop_marker [OF lt True] dr
        by (simp add: markerCount_def)
    next
      case nm: False
      show ?thesis
      proof (cases b)
        case False
        then show ?thesis
          using "1.IH"(5) [OF lt refl nm] parseLoop_closed [OF lt nm] dr nm
          by (simp add: markerCount_def)
      next
        case b: True
        show ?thesis
        proof (cases "match (trim (ls ! i)) stateLineRegex")
          case (Some m)
          then show ?thesis
            using "1.IH"(4) [OF lt refl nm b Some] parseLoop_state [OF lt nm Some] dr nm b
            by (simp add: markerCount_def)
        next
          case None
          show ?thesis
          proof (cases "startsWith (trim (ls ! i)) ''Violated property:''")
            case False
            then show ?thesis
              using "1.IH"(3) [OF lt refl nm b None False] parseLoop_other [OF lt nm None False]
                dr nm b
              by (simp add: markerCount_def)
          next
            case sw: True
            let ?k = "Suc (skipFiller ls (Suc (skipFiller ls (Suc i))))"
            have "i \<le> ?k"
              using skipFiller_ge [of "Suc i" ls]
                skipFiller_ge [of "Suc (skipFiller ls (Suc i))" ls] by linarith
            then have "markerCount (drop ?k ls) \<le> markerCount (drop i ls)"
              by (rule markerCount_drop_mono)
            then show ?thesis
              using "1.IH"(2) [OF lt refl nm b None sw refl refl refl refl refl refl]
                parseLoop_trigger [OF lt None sw] b
              by simp
          qed
        qed
      qed
    qed
  qed
qed

lemma parseLoop_closed_scan:
  assumes "i \<le> m" "m \<le> length ls"
    "\<forall>j. i \<le> j \<and> j < m \<longrightarrow> trim (ls ! j) \<noteq> ''[Counterexample]''"
  shows "parseLoop ls i False fn ln rs = parseLoop ls m False fn ln rs"
  using assms
proof (induction rule: inc_induct)
  case base
  then show ?case by simp
next
  case (step n)
  then have "parseLoop ls n False fn ln rs = parseLoop ls (Suc n) False fn ln rs"
    by (intro parseLoop_closed) auto
  then show ?case using step by auto
qed

lemma skipFiller_all_filler:
  assumes "i \<le> length ls" "\<forall>j. i \<le> j \<and> j < length ls \<longrightarrow> isFillerLine (ls ! j)"
  shows "skipFiller ls i = length ls"
  using skipFiller_to [OF assms(1) le_refl assms(2)] skipFiller_beyond [of ls "length ls"]
  by simp

lemma skipFiller_find:
  assumes "i \<le> k" "k < length ls" "\<not> isFillerLine (ls ! k)"
    "\<forall>j. i \<le> j \<and> j < k \<longrightarrow> isFillerLine (ls ! j)"
  shows "skipFiller ls i = k"
  using skipFiller_to [OF assms(1) _ assms(4)] skipFiller_stop [OF assms(2,3)] assms(2)
  by simp

lemma lineAt_beyond: "length ls \<le> i \<Longrightarrow> lineAt ls i = []"
  by (simp add: lineAt_def)

text \<open>
  Claim C3. The output made of the marker line, the State line of \<open>deposit\<close> at line 17,
  a \<open>Violated property:\<close> line, a blank line, \<open>assertion\<close>, a blank line and the
  \<open>try!\<close> line is parsed into exactly one failure record: function \<open>deposit\<close>, line 17,
  title \<open>assertion\<close>, and the \<open>try!\<close> line as failing code.
\<close>

theorem parseFailingFunctions_sample:
  "parseFailingFunctions (joinLines
     [''[Counterexample]'',
      ''State 3 file sample.clar line 17 function deposit thread 0'',
      ''Violated property:'',
      [],
      ''assertion'',
      [],
      ''try! (stx-transfer? amount tx-sender (as-contract tx-sender))''])
   = [\<lparr> functionName = ''deposit'', lineNumber = 17, title = ''assertion'',
        failingCode = ''try! (stx-transfer? amount tx-sender (as-contract tx-sender))'' \<rparr>]"
  by code_simp


text \<open>
  Claim C8. The parser emits at most one record per marker line. A \<open>Violated property:\<close>
  line met in an open block appends one record and leaves the block closed; and while the
  block is closed, the lines up to the next marker line (a \<open>Violated property:\<close> line
  among them) add no record: the loop reaches any later index \<open>m\<close> with no marker line in
  between with the same records and the block still closed.
\<close>

theorem one_record_per_marker:
  "length (parseFailingFunctions clarOutput) \<le> markerCount (split_str newline clarOutput)
   \<and> (i < length lines \<and> match (trim (lines ! i)) stateLineRegex = None \<and>
       startsWith (trim (lines ! i)) ''Violated property:'' \<longrightarrow>
         parseLoop lines i True fn ln rs =
           parseLoop lines (Suc (skipFiller lines (Suc (skipFiller lines (Suc i))))) False fn ln
             (rs @ [\<lparr> functionName = (case fn of Some n \<Rightarrow> n | None \<Rightarrow> ''unknown_function''),
                  lineNumber = (case ln of Some n \<Rightarrow> n | None \<Rightarrow> - 1),
                  title = orDefault (trim (lineAt lines (skipFiller lines (Suc i)))) ''unknown-property'',
                  failingCode =
                    orDefault (trim (lineAt lines (skipFiller lines (Suc (skipFiller lines (Suc i))))))
                      ''unknown-failing-code'' \<rparr>]))
   \<and> (i \<le> m \<and> m \<le> length lines \<and>
       (\<forall>j. i \<le> j \<and> j < m \<longrightarrow> trim (lines ! j) \<noteq> ''[Counterexample]'') \<longrightarrow>
         parseLoop lines i False fn ln rs = parseLoop lines m False fn ln rs)"
proof (intro conjI impI)
  show "length (parseFailingFunctions clarOutput) \<le> markerCount (split_str newline clarOutput)"
    using parseLoop_count [of "split_str newline clarOutput" 0 False None None "[]"]
    by (simp add: parseFailingFunctions_def)
next
  assume "i < length lines \<and> match (trim (lines ! i)) stateLineRegex = None \<and>
       startsWith (trim (lines ! i)) ''Violated property:''"
  then show "parseLoop lines i True fn ln rs =
           parseLoop lines (Suc (skipFiller lines (Suc (skipFiller lines (Suc i))))) False fn ln
             (rs @ [\<lparr> functionName = (case fn of Some n \<Rightarrow> n | None \<Rightarrow> ''unknown_function''),
                  lineNumber = (case ln of Some n \<Rightarrow> n | None \<Rightarrow> - 1),
                  title = orDefault (trim (lineAt lines (skipFiller lines (Suc i)))) ''unknown-property'',
                  failingCode =
                    orDefault (trim (lineAt lines (skipFiller lines (Suc (skipFiller lines (Suc i))))))
                      ''unknown-failing-code'' \<rparr>])"
    using parseLoop_trigger [of i lines fn ln rs] by blast
next
  assume "i \<le> m \<and> m \<le> length lines \<and>
       (\<forall>j. i \<le> j \<and> j < m \<longrightarrow> trim (lines ! j) \<noteq> ''[Counterexample]'')"
  then show "parseLoop lines i False fn ln rs = parseLoop lines m False fn ln rs"
    using parseLoop_closed_scan [of i m lines fn ln rs] by blast
qed

theorem one_record_per_marker_witness:
  "parseFailingFunctions (joinLines
     [''[Counterexample]'', ''Violated property:'', ''assertion'', ''(ok false)'',
      ''Violated property:'', ''assertion'', ''(ok true)''])
   = [\<lparr> functionName = ''unknown_function'', lineNumber = - 1, title = ''assertion'',
        failingCode = ''(ok false)'' \<rparr>]"
  (is "parseFailingFunctions (joinLines ?L) = [?r]")
proof -
  have sp: "split_str newline (joinLines ?L) = ?L"
    by code_simp
  have l0: "0 < length ?L"
    by simp
  have t0: "trim (?L ! 0) = ''[Counterexample]''"
    by code_simp
  have open_block: "parseLoop ?L 0 False None None [] = parseLoop ?L 1 True None None []"
    using parseLoop_marker [OF l0 t0] by simp
  have l: "1 < length ?L"
    by simp
  have m: "match (trim (?L ! 1)) stateLineRegex = None"
    by code_simp
  have s: "startsWith (trim (?L ! 1)) ''Violated property:''"
    by code_simp
  have k1: "skipFiller ?L (Suc 1) = 2"
    by code_simp
  have k2: "skipFiller ?L (Suc 2) = 3"
    by code_simp
  have k3: "Suc 3 = 4"
    by simp
  have t: "orDefault (trim (lineAt ?L 2)) ''unknown-property'' = ''assertion''"
    by code_simp
  have c: "orDefault (trim (lineAt ?L 3)) ''unknown-failing-code'' = ''(ok false)''"
    by code_simp
  have emit: "parseLoop ?L 1 True None None [] = parseLoop ?L 4 False None None [?r]"
    using one_record_per_marker [of "[]" 1 ?L None None "[]" 1, THEN conjunct2, THEN conjunct1,
        THEN mp, OF conjI [OF l conjI [OF m s]]]
    by (simp only: k1 k2 k3 t c option.case append_Nil)
  have "\<forall>j. 4 \<le> j \<and> j < 7 \<longrightarrow> trim (?L ! j) \<noteq> ''[Counterexample]''"
  proof (intro allI impI)
    fix j :: nat assume "4 \<le> j \<and> j < 7"
    then have "j = 4 \<or> j = 5 \<or> j = 6" by linarith
    moreover have "trim (?L ! 4) \<noteq> ''[Counterexample]''" by code_simp
    moreover have "trim (?L ! 5) \<noteq> ''[Counterexample]''" by code_simp
    moreover have "trim (?L ! 6) \<noteq> ''[Counterexample]''" by code_simp
    ultimately show "trim (?L ! j) \<noteq> ''[Counterexample]''" by blast
  qed
  then have closed: "parseLoop ?L 4 False None None [?r] = parseLoop ?L 7 False None None [?r]"
    using one_record_per_marker [of "[]" 4 ?L None None "[?r]" 7, THEN conjunct2, THEN conjunct2]
    by simp
  have fin: "parseLoop ?L 7 False None None [?r] = [?r]"
    by (rule parseLoop_end) simp
  show ?thesis
    unfolding parseFailingFunctions_def sp open_block emit closed fin by (rule refl)
qed

text \<open>
  Claim C10. A \<open>Violated property:\<close> line met in an open block (and not itself read as a
  State line) still emits a record when only blank or white-space lines follow it up to the
  end of the input: with the title \<open>unknown-property\<close> and the failing code
  \<open>unknown-failing-code\<close> when no non-blank line follows at all, and with the failing code
  \<open>unknown-failing-code\<close> when a single non-blank line, the title, follows.
\<close>

theorem trigger_defaults:
  assumes "i < length lines"
    and "match (trim (lines ! i)) stateLineRegex = None"
    and "startsWith (trim (lines ! i)) ''Violated property:''"
  shows
    "((\<forall>j. i < j \<and> j < length lines \<longrightarrow> isFillerLine (lines ! j)) \<longrightarrow>
        parseLoop lines i True fn ln rs =
          rs @ [\<lparr> functionName = (case fn of Some n \<Rightarrow> n | None \<Rightarrow> ''unknown_function''),
                  lineNumber = (case ln of Some n \<Rightarrow> n | None \<Rightarrow> - 1),
                  title = ''unknown-property'', failingCode = ''unknown-failing-code'' \<rparr>])
     \<and> (\<forall>k. i < k \<and> k < length lines \<and> \<not> isFillerLine (lines ! k) \<and>
             (\<forall>j. i < j \<and> j < length lines \<and> j \<noteq> k \<longrightarrow> isFillerLine (lines ! j)) \<longrightarrow>
        parseLoop lines i True fn ln rs =
          rs @ [\<lparr> functionName = (case fn of Some n \<Rightarrow> n | None \<Rightarrow> ''unknown_function''),
                  lineNumber = (case ln of Some n \<Rightarrow> n | None \<Rightarrow> - 1),
                  title = trim (lines ! k), failingCode = ''unknown-failing-code'' \<rparr>])"
proof (intro conjI allI impI)
  assume blank: "\<forall>j. i < j \<and> j < length lines \<longrightarrow> isFillerLine (lines ! j)"
  have i1: "skipFiller lines (Suc i) = length lines"
    using assms(1) blank by (intro skipFiller_all_filler) auto
  have i2: "skipFiller lines (Suc (length lines)) = Suc (length lines)"
    by (simp add: skipFiller_beyond)
  show "parseLoop lines i True fn ln rs =
          rs @ [\<lparr> functionName = (case fn of Some n \<Rightarrow> n | None \<Rightarrow> ''unknown_function''),
                  lineNumber = (case ln of Some n \<Rightarrow> n | None \<Rightarrow> - 1),
                  title = ''unknown-property'', failingCode = ''unknown-failing-code'' \<rparr>]"
    unfolding parseLoop_trigger [OF assms] i1 i2
    by (simp add: parseLoop_end lineAt_beyond orDefault_def)
next
  fix k
  assume k: "i < k \<and> k < length lines \<and> \<not> isFillerLine (lines ! k) \<and>
             (\<forall>j. i < j \<and> j < length lines \<and> j \<noteq> k \<longrightarrow> isFillerLine (lines ! j))"
  have i1: "skipFiller lines (Suc i) = k"
    using k by (intro skipFiller_find) auto
  have i2: "skipFiller lines (Suc k) = length lines"
    using k by (intro skipFiller_all_filler) auto
  have t: "trim (lines ! k) \<noteq> []"
    using k by (simp add: isFillerLine_def)
  show "parseLoop lines i True fn ln rs =
          rs @ [\<lparr> functionName = (case fn of Some n \<Rightarrow> n | None \<Rightarrow> ''unknown_function''),
                  lineNumber = (case ln of Some n \<Rightarrow> n | None \<Rightarrow> - 1),
                  title = trim (lines ! k), failingCode = ''unknown-failing-code'' \<rparr>]"
    unfolding parseLoop_trigger [OF assms] i1 i2
    using k t by (simp add: parseLoop_end lineAt_beyond orDefault_def lineAt_def)
qed

theorem trigger_defaults_witness:
  "parseFailingFunctions (joinLines [''[Counterexample]'', ''Violated property:'', ''   '', []])
     = [\<lparr> functionName = ''unknown_function'', lineNumber = - 1, title = ''unknown-property'',
          failingCode = ''unknown-failing-code'' \<rparr>]
   \<and> parseFailingFunctions (joinLines
         [''[Counterexample]'', ''State 3 file sample.clar line 17 function deposit thread 0'',
          ''Violated property:'', [], ''  assertion'', []])
     = [\<lparr> functionName = ''deposit'', lineNumber = 17, title = ''assertion'',
          failingCode = ''unknown-failing-code'' \<rparr>]"
  (is "parseFailingFunctions (joinLines ?A) = [?ra] \<and> parseFailingFunctions (joinLines ?B) = [?rb]")
proof
  have sp: "split_str newline (joinLines ?A) = ?A" by code_simp
  have l0: "0 < length ?A" by simp
  have t0: "trim (?A ! 0) = ''[Counterexample]''" by code_simp
  have open_block: "parseLoop ?A 0 False None None [] = parseLoop ?A 1 True None None []"
    using parseLoop_marker [OF l0 t0] by simp
  have l: "1 < length ?A" by simp
  have m: "match (trim (?A ! 1)) stateLineRegex = None" by code_simp
  have s: "startsWith (trim (?A ! 1)) ''Violated property:''" by code_simp
  have b: "\<forall>j. 1 < j \<and> j < length ?A \<longrightarrow> isFillerLine (?A ! j)"
  proof (intro allI impI)
    fix j :: nat assume "1 < j \<and> j < length ?A"
    then have "j = 2 \<or> j = 3" by (simp, linarith)
    moreover have "isFillerLine (?A ! 2)" by code_simp
    moreover have "isFillerLine (?A ! 3)" by code_simp
    ultimately show "isFillerLine (?A ! j)" by blast
  qed
  have emit: "parseLoop ?A 1 True None None [] = [?ra]"
    using trigger_defaults [OF l m s, of None None "[]", THEN conjunct1, THEN mp, OF b]
    by (simp only: option.case append_Nil)
  show "parseFailingFunctions (joinLines ?A) = [?ra]"
    unfolding parseFailingFunctions_def sp open_block emit by (rule refl)
next
  have sp: "split_str newline (joinLines ?B) = ?B" by code_simp
  have l0: "0 < length ?B" by simp
  have t0: "trim (?B ! 0) = ''[Counterexample]''" by code_simp
  have open_block: "parseLoop ?B 0 False None None [] = parseLoop ?B 1 True None None []"
    using parseLoop_marker [OF l0 t0] by simp
  have l1: "1 < length ?B" by simp
  have t1: "trim (?B ! 1) \<noteq> ''[Counterexample]''" by code_simp
  have m1: "match (trim (?B ! 1)) stateLineRegex =
              Some \<lparr> index = 0,
                     groups = [''State 3 file sample.clar line 17 function deposit thread 0'',
                               ''17'', ''deposit''] \<rparr>"
    by code_simp
  have g1: "parseInt (groups \<lparr> index = 0,
                     groups = [''State 3 file sample.clar line 17 function deposit thread 0'',
                               ''17'', ''deposit''] \<rparr> ! 1) = 17"
    by code_simp
  have g2: "groups \<lparr> index = 0,
                     groups = [''State 3 file sample.clar line 17 function deposit thread 0'',
                               ''17'', ''deposit''] \<rparr> ! 2 = ''deposit''"
    by simp
  have s12: "Suc 1 = 2" by simp
  have annotate: "parseLoop ?B 1 True None None [] =
          parseLoop ?B 2 True (Some ''deposit'') (Some 17) []"
    using parseLoop_state [OF l1 t1 m1, of None None "[]"] by (simp only: g1 g2 s12)
  have l: "2 < length ?B" by simp
  have m: "match (trim (?B ! 2)) stateLineRegex = None" by code_simp
  have s: "startsWith (trim (?B ! 2)) ''Violated property:''" by code_simp
  have t: "trim (?B ! 4) = ''assertion''" by code_simp
  have nf: "\<not> isFillerLine (?B ! 4)" by code_simp
  have b: "\<forall>j. 2 < j \<and> j < length ?B \<and> j \<noteq> 4 \<longrightarrow> isFillerLine (?B ! j)"
  proof (intro allI impI)
    fix j :: nat assume "2 < j \<and> j < length ?B \<and> j \<noteq> 4"
    then have "j = 3 \<or> j = 5" by (simp, linarith)
    moreover have "isFillerLine (?B ! 3)" by code_simp
    moreover have "isFillerLine (?B ! 5)" by code_simp
    ultimately show "isFillerLine (?B ! j)" by blast
  qed
  have h: "(2::nat) < 4 \<and> 4 < length ?B \<and> \<not> isFillerLine (?B ! 4) \<and>
             (\<forall>j. 2 < j \<and> j < length ?B \<and> j \<noteq> 4 \<longrightarrow> isFillerLine (?B ! j))"
    using nf b by (intro conjI) simp_all
  have emit: "parseLoop ?B 2 True (Some ''deposit'') (Some 17) [] = [?rb]"
    using trigger_defaults [OF l m s, of "Some ''deposit''" "Some 17" "[]", THEN conjunct2,
        THEN spec, of 4, THEN mp, OF h]
    by (simp only: option.case append_Nil t)
  show "parseFailingFunctions (joinLines ?B) = [?rb]"
    unfolding parseFailingFunctions_def sp open_block annotate emit by (rule refl)
qed

section \<open>Properties of the function boundary parser\<close>

lemma countParens_append: "countParens (a @ b) d = countParens b (countParens a d)"
  by (induction a arbitrary: d) simp_all

lemma parseLines_append:
  "parseLines fp i (a @ b) st = parseLines fp (i + length a) b (parseLines fp i a st)"
  by (induction a arbitrary: i st) simp_all

lemma parseLine_header_open:
  assumes "\<not> inFunction st" "match hdr functionRegex = Some m"
    "countParens (drop (index m + 1) hdr) 1 \<noteq> 0"
  shows "parseLine fp i hdr st =
           st \<lparr> inFunction := True,
                currentFunction := \<lparr> name = extractName (groups m ! 2), type = groups m ! 1,
                  startLine = i + 1, endLine = 0, content = hdr, sourceFile = fp \<rparr>,
                openParens := countParens (drop (index m + 1) hdr) 1,
                functionContent := hdr \<rparr>"
  using assms by (simp add: parseLine_def Let_def)

lemma parseLine_inside_open:
  assumes "inFunction st" "countParens line (openParens st) \<noteq> 0"
  shows "parseLine fp i line st =
           st \<lparr> openParens := countParens line (openParens st),
                functionContent := functionContent st @ [newline] @ line \<rparr>"
  using assms by (simp add: parseLine_def Let_def)

lemma parseLines_inside_open:
  assumes "inFunction st"
    "\<forall>k. 1 \<le> k \<and> k \<le> length rest \<longrightarrow> countParens (concat (take k rest)) (openParens st) \<noteq> 0"
  shows "parseLines fp i rest st =
           st \<lparr> openParens := countParens (concat rest) (openParens st),
                functionContent := functionContent st @ concat (map (\<lambda>x. newline # x) rest) \<rparr>"
  using assms
proof (induction rest arbitrary: i st)
  case Nil
  then show ?case by simp
next
  case (Cons l rest)
  have d1: "countParens l (openParens st) \<noteq> 0"
    using Cons.prems(2) [rule_format, of 1] by simp
  let ?st = "st \<lparr> openParens := countParens l (openParens st),
                functionContent := functionContent st @ [newline] @ l \<rparr>"
  have step: "parseLine fp i l st = ?st"
    using Cons.prems(1) d1 by (rule parseLine_inside_open)
  have "\<forall>k. 1 \<le> k \<and> k \<le> length rest \<longrightarrow>
          countParens (concat (take k rest)) (openParens ?st) \<noteq> 0"
  proof (intro allI impI)
    fix k assume "1 \<le> k \<and> k \<le> length rest"
    then have "countParens (concat (take (Suc k) (l # rest))) (openParens st) \<noteq> 0"
      using Cons.prems(2) [rule_format, of "Suc k"] by simp
    then show "countParens (concat (take k rest)) (openParens ?st) \<noteq> 0"
      by (simp add: countParens_append)
  qed
  moreover have "inFunction ?st" using Cons.prems(1) by simp
  ultimately have "parseLines fp (Suc i) rest ?st =
      ?st \<lparr> openParens := countParens (concat rest) (openParens ?st),
            functionContent := functionContent ?st @ concat (map (\<lambda>x. newline # x) rest) \<rparr>"
    by (rule Cons.IH [rotated])
  then show ?case
    by (simp add: step countParens_append)
qed


lemma parseLine_lineBound: "lineBound i st \<Longrightarrow> lineBound (Suc i) (parseLine fp i line st)"
  unfolding lineBound_def parseLine_def
  by (auto simp: Let_def split: option.splits)

lemma parseLines_lineBound:
  "lineBound i st \<Longrightarrow> lineBound (i + length ls) (parseLines fp i ls st)"
proof (induction ls arbitrary: i st)
  case Nil
  then show ?case by simp
next
  case (Cons l ls)
  then show ?case using parseLine_lineBound [of i st fp l] by fastforce
qed

lemma lineBound_initial: "lineBound 0 initialParserState"
  by (simp add: lineBound_def initialParserState_def)

lemma parseClarityFunctions_empty: "parseClarityFunctions [] filePath = []"
  by (simp add: parseClarityFunctions_def initialParserState_def parseLine_def match_def
      functionRegex_def matchLit_def startsWith_def)

text \<open>
  Claim C4 as stated fails: a header whose parentheses never close leaves no function in
  the output. Here the first definition is never closed; the two lines after it are
  collected into its pending text, the second definition is not recognised, and the
  parser returns no function at all.
\<close>

theorem unbalanced_function_absent:
  "parseClarityFunctions
     (joinLines [''(define-public (deposit (amount uint))'', ''  (ok true)'',
                 ''(define-read-only (get-balance) (ok u0))'']) ''a.clar'' = []"
  by code_simp

text \<open>
  Claim C4, amended. When a definition header is matched outside a function and the depth
  counter is not zero at the end of the header line nor at the end of any later line, the
  parser (a total function: no branch raises) returns exactly the functions completed
  before the header; the lines from the header to the end of the file are collected into
  the pending function's text, which is never pushed, so no function of the output starts
  at the header line or after it.
\<close>

theorem unbalanced_function_dropped:
  assumes "split_str newline content' = pre @ hdr # rest"
    and "\<not> inFunction (parseLines filePath 0 pre initialParserState)"
    and "match hdr functionRegex = Some m"
    and "\<forall>k. k \<le> length rest \<longrightarrow>
           countParens (concat (take k rest)) (countParens (drop (index m + 1) hdr) 1) \<noteq> 0"
  shows "parseClarityFunctions content' filePath =
           functions' (parseLines filePath 0 pre initialParserState)
       \<and> inFunction (parseLines filePath 0 (pre @ hdr # rest) initialParserState)
       \<and> functionContent (parseLines filePath 0 (pre @ hdr # rest) initialParserState) =
           joinLines (hdr # rest)
       \<and> (\<forall>f \<in> set (parseClarityFunctions content' filePath).
             ClarityFunction.startLine f \<le> length pre)"
proof -
  let ?st = "parseLines filePath 0 pre initialParserState"
  let ?d0 = "countParens (drop (index m + 1) hdr) 1"
  let ?st1 = "?st \<lparr> inFunction := True,
                currentFunction := \<lparr> name = extractName (groups m ! 2), type = groups m ! 1,
                  startLine = length pre + 1, endLine = 0, content = hdr, sourceFile = filePath \<rparr>,
                openParens := ?d0, functionContent := hdr \<rparr>"
  have d0: "?d0 \<noteq> 0" using assms(4) [rule_format, of 0] by simp
  have hdr: "parseLine filePath (length pre) hdr ?st = ?st1"
    using assms(2,3) d0 by (rule parseLine_header_open)
  have "parseLines filePath (Suc (length pre)) rest ?st1 =
          ?st1 \<lparr> openParens := countParens (concat rest) (openParens ?st1),
                 functionContent := functionContent ?st1 @ concat (map (\<lambda>x. newline # x) rest) \<rparr>"
    using assms(4) by (intro parseLines_inside_open) simp_all
  then have all: "parseLines filePath 0 (pre @ hdr # rest) initialParserState =
          ?st1 \<lparr> openParens := countParens (concat rest) (openParens ?st1),
                 functionContent := functionContent ?st1 @ concat (map (\<lambda>x. newline # x) rest) \<rparr>"
    by (simp add: parseLines_append hdr)
  have out: "parseClarityFunctions content' filePath = functions' ?st"
    unfolding parseClarityFunctions_def assms(1) all by simp
  have "lineBound (length pre) ?st"
    using parseLines_lineBound [OF lineBound_initial, of pre filePath] by simp
  then have "\<forall>f \<in> set (functions' ?st). ClarityFunction.startLine f \<le> length pre"
    by (simp add: lineBound_def)
  then show ?thesis
    unfolding out all by (simp add: joinLines_def)
qed

theorem unbalanced_function_dropped_witness:
  "parseClarityFunctions
     (joinLines [''(define-read-only (get-balance) (ok u0))'',
                 ''(define-public (deposit (amount uint))'', ''  (ok true)'',
                 ''(define-private (mint) (ok u1))'']) ''a.clar''
   = [\<lparr> name = ''get-balance'', type = ''read-only'', startLine = 1, endLine = 1,
        content = ''(define-read-only (get-balance) (ok u0))'', sourceFile = ''a.clar'' \<rparr>]"
  (is "parseClarityFunctions ?c ''a.clar'' = [?f]")
proof -
  let ?pre = "[''(define-read-only (get-balance) (ok u0))'']"
  let ?hdr = "''(define-public (deposit (amount uint))''"
  let ?rest = "[''  (ok true)'', ''(define-private (mint) (ok u1))'']"
  let ?m = "\<lparr> index = 0, groups = [''(define-public (deposit (amount uint'', ''public'',
              ''deposit (amount uint''] \<rparr>"
  have sp: "split_str newline ?c = ?pre @ ?hdr # ?rest"
    by code_simp
  have nin: "\<not> inFunction (parseLines ''a.clar'' 0 ?pre initialParserState)"
    by code_simp
  have m: "match ?hdr functionRegex = Some ?m"
    by code_simp
  have d: "\<forall>k. k \<le> length ?rest \<longrightarrow>
           countParens (concat (take k ?rest)) (countParens (drop (index ?m + 1) ?hdr) 1) \<noteq> 0"
  proof (intro allI impI)
    fix k :: nat assume "k \<le> length ?rest"
    then have "k = 0 \<or> k = 1 \<or> k = 2" by (simp, linarith)
    moreover have "countParens (concat (take 0 ?rest)) (countParens (drop (index ?m + 1) ?hdr) 1) \<noteq> 0"
      by code_simp
    moreover have "countParens (concat (take 1 ?rest)) (countParens (drop (index ?m + 1) ?hdr) 1) \<noteq> 0"
      by code_simp
    moreover have "countParens (concat (take 2 ?rest)) (countParens (drop (index ?m + 1) ?hdr) 1) \<noteq> 0"
      by code_simp
    ultimately show "countParens (concat (take k ?rest)) (countParens (drop (index ?m + 1) ?hdr) 1) \<noteq> 0"
      by blast
  qed
  have f: "functions' (parseLines ''a.clar'' 0 ?pre initialParserState) = [?f]"
    by code_simp
  show ?thesis
    using unbalanced_function_dropped [OF sp nin m d, THEN conjunct1] f by simp
qed

section \<open>Properties of the change set comparator\<close>

lemma withChangeType_simps [simp]:
  "name (withChangeType f ct) = name f"
  "content (withChangeType f ct) = content f"
  "changeType (withChangeType f ct) = ct"
  "ClarityFunction.truncate (withChangeType f ct) = f"
  by (simp_all add: withChangeType_def ClarityFunction.defs ChangedFunction.defs)

lemma find_name_Some: "find (\<lambda>f. name f = n) xs = Some h \<Longrightarrow> name h = n \<and> h \<in> set xs"
  by (induction xs) (auto split: if_splits)

lemma find_name_None: "find (\<lambda>f. name f = n) xs = None \<longleftrightarrow> n \<notin> name ` set xs"
  by (induction xs) (auto split: if_splits)

lemma set_modifiedAndDeleted:
  "r \<in> set (modifiedAndDeleted base head) \<longleftrightarrow>
     (\<exists>b \<in> set base.
        (find (\<lambda>f. name f = name b) head = None \<and> r = withChangeType b deleted) \<or>
        (\<exists>h. find (\<lambda>f. name f = name b) head = Some h \<and> content b \<noteq> content h \<and>
              r = withChangeType h modified))"
  by (induction base) (auto split: option.splits)

lemma set_addedFunctions:
  "r \<in> set (addedFunctions base head) \<longleftrightarrow>
     (\<exists>h \<in> set head. find (\<lambda>f. name f = name h) base = None \<and> r = withChangeType h added)"
  by (induction head) (auto split: option.splits)

lemma set_compareAndIdentifyChanges:
  "r \<in> set (compareAndIdentifyChanges base head) \<longleftrightarrow>
     (\<exists>b \<in> set base. find (\<lambda>f. name f = name b) head = None \<and> r = withChangeType b deleted) \<or>
     (\<exists>b \<in> set base. \<exists>h. find (\<lambda>f. name f = name b) head = Some h \<and> content b \<noteq> content h \<and>
              r = withChangeType h modified) \<or>
     (\<exists>h \<in> set head. find (\<lambda>f. name f = name h) base = None \<and> r = withChangeType h added)"
  unfolding compareAndIdentifyChanges_def set_append Un_iff set_modifiedAndDeleted set_addedFunctions
  by blast

lemma changeType_determined:
  assumes "r \<in> set (compareAndIdentifyChanges base head)"
  shows "changeType r =
           (if name r \<notin> name ` set head then deleted
            else if name r \<in> name ` set base then modified else added)"
  using assms unfolding set_compareAndIdentifyChanges
  by (auto simp: find_name_None image_iff dest!: find_name_Some)

lemma compare_cases:
  assumes "r \<in> set (compareAndIdentifyChanges base head)"
  obtains
    (del) b where "b \<in> set base" "name b \<notin> name ` set head" "r = withChangeType b deleted"
  | (mod) b h where "b \<in> set base" "h \<in> set head" "name h = name b"
      "find (\<lambda>f. name f = name b) head = Some h" "content b \<noteq> content h"
      "r = withChangeType h modified"
  | (add) h where "h \<in> set head" "name h \<notin> name ` set base" "r = withChangeType h added"
proof -
  from assms consider
      b where "b \<in> set base" "find (\<lambda>f. name f = name b) head = None" "r = withChangeType b deleted"
    | b h where "b \<in> set base" "find (\<lambda>f. name f = name b) head = Some h"
        "content b \<noteq> content h" "r = withChangeType h modified"
    | h where "h \<in> set head" "find (\<lambda>f. name f = name h) base = None" "r = withChangeType h added"
    unfolding set_compareAndIdentifyChanges by blast
  then show thesis
  proof cases
    case 1
    then show ?thesis using del [of b] by (simp add: find_name_None)
  next
    case 2
    then show ?thesis using mod [of b h] find_name_Some [of "name b" head h] by simp
  next
    case 3
    then show ?thesis using add [of h] by (simp add: find_name_None)
  qed
qed

lemma compare_deletedI:
  "b \<in> set base \<Longrightarrow> name b \<notin> name ` set head \<Longrightarrow>
     withChangeType b deleted \<in> set (compareAndIdentifyChanges base head)"
  unfolding set_compareAndIdentifyChanges by (auto simp: find_name_None)

lemma compare_addedI:
  "h \<in> set head \<Longrightarrow> name h \<notin> name ` set base \<Longrightarrow>
     withChangeType h added \<in> set (compareAndIdentifyChanges base head)"
  unfolding set_compareAndIdentifyChanges by (auto simp: find_name_None)

lemma compare_modifiedI:
  "b \<in> set base \<Longrightarrow> find (\<lambda>f. name f = name b) head = Some h \<Longrightarrow> content b \<noteq> content h \<Longrightarrow>
     withChangeType h modified \<in> set (compareAndIdentifyChanges base head)"
  unfolding set_compareAndIdentifyChanges by auto

lemma compare_modified_iff:
  "(\<exists>r \<in> set (compareAndIdentifyChanges base head). name r = n \<and> changeType r = modified) \<longleftrightarrow>
     (\<exists>b \<in> set base. \<exists>h. name b = n \<and> find (\<lambda>f. name f = n) head = Some h \<and>
        content b \<noteq> content h)"
proof
  assume "\<exists>r \<in> set (compareAndIdentifyChanges base head). name r = n \<and> changeType r = modified"
  then obtain r where r: "r \<in> set (compareAndIdentifyChanges base head)" "name r = n"
    "changeType r = modified" by blast
  from r(1) show "\<exists>b \<in> set base. \<exists>h. name b = n \<and> find (\<lambda>f. name f = n) head = Some h \<and>
        content b \<noteq> content h"
  proof (cases rule: compare_cases)
    case (mod b h)
    then show ?thesis using r by auto
  qed (use r in auto)
next
  assume "\<exists>b \<in> set base. \<exists>h. name b = n \<and> find (\<lambda>f. name f = n) head = Some h \<and>
        content b \<noteq> content h"
  then obtain b h where bh: "b \<in> set base" "name b = n" "find (\<lambda>f. name f = n) head = Some h"
    "content b \<noteq> content h" by blast
  then have "withChangeType h modified \<in> set (compareAndIdentifyChanges base head)"
    using compare_modifiedI [of b base head h] by simp
  moreover have "name h = n" using bh(3) find_name_Some by blast
  ultimately show "\<exists>r \<in> set (compareAndIdentifyChanges base head). name r = n \<and> changeType r = modified"
    by (intro bexI [of _ "withChangeType h modified"]) simp_all
qed

lemma compare_modified_carries:
  assumes "r \<in> set (compareAndIdentifyChanges base head)" "changeType r = modified"
  shows "\<exists>h. find (\<lambda>f. name f = name r) head = Some h \<and> r = withChangeType h modified"
  using assms(1)
proof (cases rule: compare_cases)
  case (mod b h)
  then show ?thesis by auto
qed (use assms(2) in auto)

lemma compare_deleted_iff:
  "(\<exists>r \<in> set (compareAndIdentifyChanges base head). name r = n \<and> changeType r = deleted) \<longleftrightarrow>
     (n \<in> name ` set base \<and> n \<notin> name ` set head)"
proof
  assume "\<exists>r \<in> set (compareAndIdentifyChanges base head). name r = n \<and> changeType r = deleted"
  then obtain r where r: "r \<in> set (compareAndIdentifyChanges base head)" "name r = n"
    "changeType r = deleted" by blast
  from r(1) show "n \<in> name ` set base \<and> n \<notin> name ` set head"
  proof (cases rule: compare_cases)
    case (del b)
    then show ?thesis using r by auto
  qed (use r in auto)
next
  assume "n \<in> name ` set base \<and> n \<notin> name ` set head"
  then obtain b where b: "b \<in> set base" "name b = n" "name b \<notin> name ` set head" by auto
  then have "withChangeType b deleted \<in> set (compareAndIdentifyChanges base head)"
    using compare_deletedI by blast
  then show "\<exists>r \<in> set (compareAndIdentifyChanges base head). name r = n \<and> changeType r = deleted"
    using b(2) by (intro bexI [of _ "withChangeType b deleted"]) simp_all
qed

lemma compare_deleted_carries:
  assumes "r \<in> set (compareAndIdentifyChanges base head)" "changeType r = deleted"
  shows "\<exists>b \<in> set base. r = withChangeType b deleted"
  using assms(1)
proof (cases rule: compare_cases)
  case (del b)
  then show ?thesis by auto
qed (use assms(2) in auto)

lemma compare_added_iff:
  "(\<exists>r \<in> set (compareAndIdentifyChanges base head). name r = n \<and> changeType r = added) \<longleftrightarrow>
     (n \<in> name ` set head \<and> n \<notin> name ` set base)"
proof
  assume "\<exists>r \<in> set (compareAndIdentifyChanges base head). name r = n \<and> changeType r = added"
  then obtain r where r: "r \<in> set (compareAndIdentifyChanges base head)" "name r = n"
    "changeType r = added" by blast
  from r(1) show "n \<in> name ` set head \<and> n \<notin> name ` set base"
  proof (cases rule: compare_cases)
    case (add h)
    then show ?thesis using r by auto
  qed (use r in auto)
next
  assume "n \<in> name ` set head \<and> n \<notin> name ` set base"
  then obtain h where h: "h \<in> set head" "name h = n" "name h \<notin> name ` set base" by auto
  then have "withChangeType h added \<in> set (compareAndIdentifyChanges base head)"
    using compare_addedI by blast
  then show "\<exists>r \<in> set (compareAndIdentifyChanges base head). name r = n \<and> changeType r = added"
    using h(2) by (intro bexI [of _ "withChangeType h added"]) simp_all
qed

lemma compare_added_carries:
  assumes "r \<in> set (compareAndIdentifyChanges base head)" "changeType r = added"
  shows "\<exists>h \<in> set head. r = withChangeType h added"
  using assms(1)
proof (cases rule: compare_cases)
  case (add h)
  then show ?thesis by auto
qed (use assms(2) in auto)

lemma compare_unchanged:
  assumes "n \<in> name ` set base"
    and "\<forall>b \<in> set base. name b = n \<longrightarrow>
           (\<exists>h. find (\<lambda>f. name f = n) head = Some h \<and> content b = content h)"
    and r: "r \<in> set (compareAndIdentifyChanges base head)"
  shows "name r \<noteq> n"
proof
  assume n: "name r = n"
  from assms obtain b h where b: "b \<in> set base" "name b = n"
    and h: "find (\<lambda>f. name f = n) head = Some h" by auto
  have "name h = n \<and> h \<in> set head" using h by (rule find_name_Some)
  then have inh: "n \<in> name ` set head" by auto
  from r show False
  proof (cases rule: compare_cases)
    case (del b')
    then show ?thesis using n inh by auto
  next
    case (mod b' h')
    then show ?thesis using n assms(2) by auto
  next
    case (add h')
    then show ?thesis using n assms(1) by auto
  qed
qed

lemma find_name_distinct:
  "distinct (map name xs) \<Longrightarrow> h \<in> set xs \<Longrightarrow> find (\<lambda>f. name f = name h) xs = Some h"
  by (induction xs) (auto simp: image_iff)

lemma compare_modified_distinct:
  assumes "distinct (map name head)"
  shows "(\<exists>r \<in> set (compareAndIdentifyChanges base head). name r = n \<and> changeType r = modified) \<longleftrightarrow>
     (\<exists>b \<in> set base. \<exists>h \<in> set head. name b = n \<and> name h = n \<and> content b \<noteq> content h)"
proof -
  have "(\<exists>h. find (\<lambda>f. name f = n) head = Some h \<and> content b \<noteq> content h) \<longleftrightarrow>
        (\<exists>h \<in> set head. name h = n \<and> content b \<noteq> content h)" for b
    using find_name_distinct [OF assms] find_name_Some [of n head] by metis
  then show ?thesis unfolding compare_modified_iff by blast
qed

text \<open>
  Claim C1 as stated fails when a name occurs twice in the head sequence: comparing the
  functions of a file that defines \<open>f\<close> twice with themselves reports \<open>f\<close> as modified,
  though both sequences are identical, because every base function is compared with the
  first head function of its name.
\<close>

theorem compare_identical_duplicates:
  "compareAndIdentifyChanges
     (parseClarityFunctions
        (joinLines [''(define-public (f) (ok u1))'', ''(define-public (f) (ok u2))'']) ''a.clar'')
     (parseClarityFunctions
        (joinLines [''(define-public (f) (ok u1))'', ''(define-public (f) (ok u2))'']) ''a.clar'')
   = [withChangeType
        \<lparr> name = ''f'', type = ''public'', startLine = 1, endLine = 1,
          content = ''(define-public (f) (ok u1))'', sourceFile = ''a.clar'' \<rparr> modified]"
  by code_simp

text \<open>
  Claim C1, amended. Every base function is compared with the first head function of the
  same name. The output has a modified record with name \<open>n\<close> exactly when some base
  function named \<open>n\<close> differs in content from the first head function named \<open>n\<close>, and a
  modified record is that head function; a deleted record with name \<open>n\<close> exactly when \<open>n\<close>
  is a base name absent from head, and it is a base function; an added record with name \<open>n\<close>
  exactly when \<open>n\<close> is a head name absent from base, and it is a head function; and no
  record with name \<open>n\<close> when every base function named \<open>n\<close> has the content of the first
  head function named \<open>n\<close>. When no name occurs twice in head, the modified names are
  exactly the names present in both sequences with different contents.
\<close>

theorem compareAndIdentifyChanges_buckets:
  "((\<exists>r \<in> set (compareAndIdentifyChanges base head). name r = n \<and> changeType r = modified) \<longleftrightarrow>
      (\<exists>b \<in> set base. \<exists>h. name b = n \<and> find (\<lambda>f. name f = n) head = Some h \<and>
          content b \<noteq> content h))
   \<and> (\<forall>r \<in> set (compareAndIdentifyChanges base head). changeType r = modified \<longrightarrow>
        (\<exists>h. find (\<lambda>f. name f = name r) head = Some h \<and> r = withChangeType h modified))
   \<and> ((\<exists>r \<in> set (compareAndIdentifyChanges base head). name r = n \<and> changeType r = deleted) \<longleftrightarrow>
        (n \<in> name ` set base \<and> n \<notin> name ` set head))
   \<and> (\<forall>r \<in> set (compareAndIdentifyChanges base head). changeType r = deleted \<longrightarrow>
        (\<exists>b \<in> set base. r = withChangeType b deleted))
   \<and> ((\<exists>r \<in> set (compareAndIdentifyChanges base head). name r = n \<and> changeType r = added) \<longleftrightarrow>
        (n \<in> name ` set head \<and> n \<notin> name ` set base))
   \<and> (\<forall>r \<in> set (compareAndIdentifyChanges base head). changeType r = added \<longrightarrow>
        (\<exists>h \<in> set head. r = withChangeType h added))
   \<and> (n \<in> name ` set base \<and>
        (\<forall>b \<in> set base. name b = n \<longrightarrow>
           (\<exists>h. find (\<lambda>f. name f = n) head = Some h \<and> content b = content h)) \<longrightarrow>
        (\<forall>r \<in> set (compareAndIdentifyChanges base head). name r \<noteq> n))
   \<and> (distinct (map name head) \<longrightarrow>
        ((\<exists>r \<in> set (compareAndIdentifyChanges base head). name r = n \<and> changeType r = modified) \<longleftrightarrow>
         (\<exists>b \<in> set base. \<exists>h \<in> set head. name b = n \<and> name h = n \<and> content b \<noteq> content h)))"
proof (intro conjI ballI impI)
  show "(\<exists>r \<in> set (compareAndIdentifyChanges base head). name r = n \<and> changeType r = modified) \<longleftrightarrow>
      (\<exists>b \<in> set base. \<exists>h. name b = n \<and> find (\<lambda>f. name f = n) head = Some h \<and>
          content b \<noteq> content h)"
    by (rule compare_modified_iff)
  show "(\<exists>r \<in> set (compareAndIdentifyChanges base head). name r = n \<and> changeType r = deleted) \<longleftrightarrow>
        (n \<in> name ` set base \<and> n \<notin> name ` set head)"
    by (rule compare_deleted_iff)
  show "(\<exists>r \<in> set (compareAndIdentifyChanges base head). name r = n \<and> changeType r = added) \<longleftrightarrow>
        (n \<in> name ` set head \<and> n \<notin> name ` set base)"
    by (rule compare_added_iff)
next
  fix r assume "r \<in> set (compareAndIdentifyChanges base head)" "changeType r = modified"
  then show "\<exists>h. find (\<lambda>f. name f = name r) head = Some h \<and> r = withChangeType h modified"
    by (rule compare_modified_carries)
next
  fix r assume "r \<in> set (compareAndIdentifyChanges base head)" "changeType r = deleted"
  then show "\<exists>b \<in> set base. r = withChangeType b deleted"
    by (rule compare_deleted_carries)
next
  fix r assume "r \<in> set (compareAndIdentifyChanges base head)" "changeType r = added"
  then show "\<exists>h \<in> set head. r = withChangeType h added"
    by (rule compare_added_carries)
next
  fix r
  assume "n \<in> name ` set base \<and>
        (\<forall>b \<in> set base. name b = n \<longrightarrow>
           (\<exists>h. find (\<lambda>f. name f = n) head = Some h \<and> content b = content h))"
    and "r \<in> set (compareAndIdentifyChanges base head)"
  then show "name r \<noteq> n"
    using compare_unchanged [of n base head r] by simp
next
  assume "distinct (map name head)"
  then show "(\<exists>r \<in> set (compareAndIdentifyChanges base head). name r = n \<and> changeType r = modified) \<longleftrightarrow>
         (\<exists>b \<in> set base. \<exists>h \<in> set head. name b = n \<and> name h = n \<and> content b \<noteq> content h)"
    by (rule compare_modified_distinct)
qed

theorem compareAndIdentifyChanges_buckets_witness:
  "(\<exists>r \<in> set (compareAndIdentifyChanges
        [\<lparr> name = ''deposit'', type = ''public'', startLine = 1, endLine = 1,
            content = ''(define-public (deposit) (ok u1))'', sourceFile = ''a.clar'' \<rparr>,
         \<lparr> name = ''get-balance'', type = ''read-only'', startLine = 2, endLine = 2,
            content = ''(define-read-only (get-balance) (ok u0))'', sourceFile = ''a.clar'' \<rparr>,
         \<lparr> name = ''withdraw'', type = ''public'', startLine = 3, endLine = 3,
            content = ''(define-public (withdraw) (ok u3))'', sourceFile = ''a.clar'' \<rparr>]
        [\<lparr> name = ''deposit'', type = ''public'', startLine = 1, endLine = 1,
            content = ''(define-public (deposit) (ok u2))'', sourceFile = ''a.clar'' \<rparr>,
         \<lparr> name = ''get-balance'', type = ''read-only'', startLine = 2, endLine = 2,
            content = ''(define-read-only (get-balance) (ok u0))'', sourceFile = ''a.clar'' \<rparr>,
         \<lparr> name = ''mint'', type = ''private'', startLine = 3, endLine = 3,
            content = ''(define-private (mint) (ok u4))'', sourceFile = ''a.clar'' \<rparr>]).
      name r = ''deposit'' \<and> changeType r = modified)"
  (is "\<exists>r \<in> set (compareAndIdentifyChanges ?B ?H). _")
proof -
  have "\<exists>b \<in> set ?B. \<exists>h. name b = ''deposit'' \<and> find (\<lambda>f. name f = ''deposit'') ?H = Some h \<and>
          content b \<noteq> content h"
    by simp
  moreover have "(\<exists>r \<in> set (compareAndIdentifyChanges ?B ?H). name r = ''deposit'' \<and> changeType r = modified) \<longleftrightarrow>
      (\<exists>b \<in> set ?B. \<exists>h. name b = ''deposit'' \<and> find (\<lambda>f. name f = ''deposit'') ?H = Some h \<and>
          content b \<noteq> content h)"
    using compareAndIdentifyChanges_buckets [of ?B ?H "''deposit''"] by (rule conjunct1)
  ultimately show ?thesis by (rule rev_iffD2)
qed

text \<open>
  Claim C6. For all base and head sequences, duplicate names included, two records of the
  output with the same name have the same change type.
\<close>

theorem one_bucket:
  "\<forall>r1 \<in> set (compareAndIdentifyChanges base head).
   \<forall>r2 \<in> set (compareAndIdentifyChanges base head).
      name r1 = name r2 \<longrightarrow> changeType r1 = changeType r2"
  by (metis changeType_determined)

theorem one_bucket_witness:
  "name (compareAndIdentifyChanges
      [\<lparr> name = ''f'', type = ''public'', startLine = 1, endLine = 1,
          content = ''(define-public (f) (ok u1))'', sourceFile = ''a.clar'' \<rparr>,
       \<lparr> name = ''f'', type = ''public'', startLine = 2, endLine = 2,
          content = ''(define-public (f) (ok u2))'', sourceFile = ''a.clar'' \<rparr>]
      [\<lparr> name = ''g'', type = ''private'', startLine = 1, endLine = 1,
          content = ''(define-private (g) (ok u3))'', sourceFile = ''a.clar'' \<rparr>] ! 0)
   = name (compareAndIdentifyChanges
      [\<lparr> name = ''f'', type = ''public'', startLine = 1, endLine = 1,
          content = ''(define-public (f) (ok u1))'', sourceFile = ''a.clar'' \<rparr>,
       \<lparr> name = ''f'', type = ''public'', startLine = 2, endLine = 2,
          content = ''(define-public (f) (ok u2))'', sourceFile = ''a.clar'' \<rparr>]
      [\<lparr> name = ''g'', type = ''private'', startLine = 1, endLine = 1,
          content = ''(define-private (g) (ok u3))'', sourceFile = ''a.clar'' \<rparr>] ! 1)
   \<and> changeType (compareAndIdentifyChanges
      [\<lparr> name = ''f'', type = ''public'', startLine = 1, endLine = 1,
          content = ''(define-public (f) (ok u1))'', sourceFile = ''a.clar'' \<rparr>,
       \<lparr> name = ''f'', type = ''public'', startLine = 2, endLine = 2,
          content = ''(define-public (f) (ok u2))'', sourceFile = ''a.clar'' \<rparr>]
      [\<lparr> name = ''g'', type = ''private'', startLine = 1, endLine = 1,
          content = ''(define-private (g) (ok u3))'', sourceFile = ''a.clar'' \<rparr>] ! 0)
   = changeType (compareAndIdentifyChanges
      [\<lparr> name = ''f'', type = ''public'', startLine = 1, endLine = 1,
          content = ''(define-public (f) (ok u1))'', sourceFile = ''a.clar'' \<rparr>,
       \<lparr> name = ''f'', type = ''public'', startLine = 2, endLine = 2,
          content = ''(define-public (f) (ok u2))'', sourceFile = ''a.clar'' \<rparr>]
      [\<lparr> name = ''g'', type = ''private'', startLine = 1, endLine = 1,
          content = ''(define-private (g) (ok u3))'', sourceFile = ''a.clar'' \<rparr>] ! 1)"
  (is "name (?out ! 0) = name (?out ! 1) \<and> changeType (?out ! 0) = changeType (?out ! 1)")
proof -
  have len: "length ?out = 3"
    by (simp add: compareAndIdentifyChanges_def)
  have n: "name (?out ! 0) = name (?out ! 1)"
    by (simp add: compareAndIdentifyChanges_def)
  have "?out ! 0 \<in> set ?out" "?out ! 1 \<in> set ?out"
    using len by (simp_all only: nth_mem)
  then have "changeType (?out ! 0) = changeType (?out ! 1)"
    using one_bucket [of _ _, rule_format, OF _ _ n] by blast
  with n show ?thesis by simp
qed

section \<open>Properties of change detection\<close>

lemma withChangeType_sourceFile [simp]: "sourceFile (withChangeType f ct) = sourceFile f"
  by (simp add: withChangeType_def ClarityFunction.defs ChangedFunction.defs)

lemma parseLine_sourceFile:
  assumes "\<forall>f \<in> set (functions' st). sourceFile f = fp"
    and "inFunction st \<longrightarrow> sourceFile (currentFunction st) = fp"
  shows "(\<forall>f \<in> set (functions' (parseLine fp i line st)). sourceFile f = fp) \<and>
         (inFunction (parseLine fp i line st) \<longrightarrow>
            sourceFile (currentFunction (parseLine fp i line st)) = fp)"
  using assms unfolding parseLine_def
  by (auto simp: Let_def split: option.splits)

lemma parseLines_sourceFile:
  assumes "\<forall>f \<in> set (functions' st). sourceFile f = fp"
    and "inFunction st \<longrightarrow> sourceFile (currentFunction st) = fp"
  shows "\<forall>f \<in> set (functions' (parseLines fp i ls st)). sourceFile f = fp"
  using assms
proof (induction ls arbitrary: i st)
  case Nil
  then show ?case by simp
next
  case (Cons l ls)
  have "(\<forall>f \<in> set (functions' (parseLine fp i l st)). sourceFile f = fp) \<and>
         (inFunction (parseLine fp i l st) \<longrightarrow>
            sourceFile (currentFunction (parseLine fp i l st)) = fp)"
    using Cons.prems by (rule parseLine_sourceFile)
  then show ?case using Cons.IH [of "parseLine fp i l st" "Suc i"] by simp
qed

lemma parseClarityFunctions_sourceFile:
  "f \<in> set (parseClarityFunctions c fp) \<Longrightarrow> sourceFile f = fp"
  using parseLines_sourceFile [of initialParserState fp 0 "split_str newline c"]
  by (simp add: parseClarityFunctions_def initialParserState_def)

lemma detectLoop_concat:
  "detectLoop g b h files = concat (map (detectFileChanges g b h) files)"
  by (induction files) simp_all

lemma detectFileChanges_sourceFile:
  assumes "r \<in> set (detectFileChanges g b h fp)"
  shows "sourceFile r = fp"
proof -
  let ?B = "parseClarityFunctions (g b fp) fp"
  let ?H = "parseClarityFunctions (g h fp) fp"
  consider (new) "g b fp = []" "r \<in> set (map (\<lambda>func. withChangeType func added) ?H)"
    | (old) "g h fp = []" "r \<in> set (map (\<lambda>func. withChangeType func deleted) ?B)"
    | (both) "r \<in> set (compareAndIdentifyChanges ?B ?H)"
    using assms by (auto simp: detectFileChanges_def Let_def split: if_splits)
  then show ?thesis
  proof cases
    case new
    then show ?thesis by (auto dest: parseClarityFunctions_sourceFile)
  next
    case old
    then show ?thesis by (auto dest: parseClarityFunctions_sourceFile)
  next
    case both
    then show ?thesis
      by (cases rule: compare_cases) (auto dest: parseClarityFunctions_sourceFile)
  qed
qed

lemma detectFileChanges_new:
  assumes "g b fp = []"
  shows "map ClarityFunction.truncate (detectFileChanges g b h fp) = parseClarityFunctions (g h fp) fp"
    and "r \<in> set (detectFileChanges g b h fp) \<Longrightarrow> changeType r = added"
  using assms by (auto simp: detectFileChanges_def Let_def comp_def)

lemma detectFileChanges_removed:
  assumes "g h fp = []"
  shows "map ClarityFunction.truncate (detectFileChanges g b h fp) = parseClarityFunctions (g b fp) fp"
    and "r \<in> set (detectFileChanges g b h fp) \<Longrightarrow> changeType r = deleted"
  using assms
  by (auto simp: detectFileChanges_def Let_def comp_def parseClarityFunctions_empty
      split: if_splits)


lemma detectChangedFunctions_rejects:
  "filterFiles patternTest excludedContracts (getModifiedFiles baseRef headRef contractsDir) = Inl e
     \<Longrightarrow> detectChangedFunctions getModifiedFiles getFileContent patternTest baseRef headRef
           contractsDir excludedContracts = Inl e"
  by (simp add: detectChangedFunctions_def)

lemma detectChangedFunctions_no_files:
  "getModifiedFiles baseRef headRef contractsDir = []
     \<Longrightarrow> detectChangedFunctions getModifiedFiles getFileContent patternTest baseRef headRef
           contractsDir excludedContracts = Inr []"
  by (simp add: detectChangedFunctions_def)

text \<open>
  Claim C5. Let the filter of the excluded contracts return the list \<open>files\<close> (no pattern
  throws) and let \<open>f\<close> be one of these files. Then change detection returns a list \<open>out\<close>.
  When the base content of \<open>f\<close> is unavailable (the empty string), every function parsed
  from the head content of \<open>f\<close> is in \<open>out\<close> with the change type added, and every record
  of \<open>out\<close> for the file \<open>f\<close> has the change type added and is such a head function.
  Symmetrically, when the head content of \<open>f\<close> is unavailable, every function parsed from
  its base content is in \<open>out\<close> with the change type deleted, and every record of \<open>out\<close>
  for \<open>f\<close> has the change type deleted and is such a base function.
\<close>

theorem detect_unavailable_side:
  assumes "filterFiles patternTest excludedContracts
             (getModifiedFiles baseRef headRef contractsDir) = Inr files"
    and "f \<in> set files"
  shows "\<exists>out. detectChangedFunctions getModifiedFiles getFileContent patternTest baseRef headRef
                 contractsDir excludedContracts = Inr out
     \<and> (getFileContent baseRef f = [] \<longrightarrow>
          (\<forall>func \<in> set (parseClarityFunctions (getFileContent headRef f) f).
              \<exists>r \<in> set out. ClarityFunction.truncate r = func \<and> changeType r = added)
          \<and> (\<forall>r \<in> set out. sourceFile r = f \<longrightarrow>
                changeType r = added \<and>
                ClarityFunction.truncate r \<in> set (parseClarityFunctions (getFileContent headRef f) f)))
     \<and> (getFileContent headRef f = [] \<longrightarrow>
          (\<forall>func \<in> set (parseClarityFunctions (getFileContent baseRef f) f).
              \<exists>r \<in> set out. ClarityFunction.truncate r = func \<and> changeType r = deleted)
          \<and> (\<forall>r \<in> set out. sourceFile r = f \<longrightarrow>
                changeType r = deleted \<and>
                ClarityFunction.truncate r \<in> set (parseClarityFunctions (getFileContent baseRef f) f)))"
proof -
  let ?d = "detectFileChanges getFileContent baseRef headRef"
  let ?out = "concat (map ?d files)"
  have out: "detectChangedFunctions getModifiedFiles getFileContent patternTest baseRef headRef
                 contractsDir excludedContracts = Inr ?out"
    using assms(1) by (simp add: detectChangedFunctions_def detectLoop_concat)
  have from_f: "r \<in> set (?d f)" if "r \<in> set ?out" "sourceFile r = f" for r
  proof -
    from that(1) obtain f' where f': "f' \<in> set files" "r \<in> set (?d f')" by auto
    then have "sourceFile r = f'" using detectFileChanges_sourceFile by blast
    with that(2) f' show ?thesis by simp
  qed
  have sub: "set (?d f) \<subseteq> set ?out" using assms(2) by auto
  have new: "(\<forall>func \<in> set (parseClarityFunctions (getFileContent headRef f) f).
              \<exists>r \<in> set ?out. ClarityFunction.truncate r = func \<and> changeType r = added)
          \<and> (\<forall>r \<in> set ?out. sourceFile r = f \<longrightarrow>
                changeType r = added \<and>
                ClarityFunction.truncate r \<in> set (parseClarityFunctions (getFileContent headRef f) f))"
    if b: "getFileContent baseRef f = []"
  proof (intro conjI ballI impI)
    fix func assume "func \<in> set (parseClarityFunctions (getFileContent headRef f) f)"
    then have "func \<in> set (map ClarityFunction.truncate (?d f))"
      using detectFileChanges_new(1) [where g = getFileContent and b = baseRef and fp = f and h = headRef, OF b] by simp
    then obtain r where r: "r \<in> set (?d f)" "ClarityFunction.truncate r = func" by auto
    then have "changeType r = added" using detectFileChanges_new(2) [where g = getFileContent and b = baseRef and fp = f and h = headRef, OF b] by blast
    with r sub show "\<exists>r \<in> set ?out. ClarityFunction.truncate r = func \<and> changeType r = added"
      by blast
  next
    fix r assume "r \<in> set ?out" "sourceFile r = f"
    then have r: "r \<in> set (?d f)" by (rule from_f)
    then show "changeType r = added" using detectFileChanges_new(2) [where g = getFileContent and b = baseRef and fp = f and h = headRef, OF b] by blast
    have "ClarityFunction.truncate r \<in> set (map ClarityFunction.truncate (?d f))"
      using r by simp
    then show "ClarityFunction.truncate r \<in> set (parseClarityFunctions (getFileContent headRef f) f)"
      using detectFileChanges_new(1) [where g = getFileContent and b = baseRef and fp = f and h = headRef, OF b] by simp
  qed
  have removed: "(\<forall>func \<in> set (parseClarityFunctions (getFileContent baseRef f) f).
              \<exists>r \<in> set ?out. ClarityFunction.truncate r = func \<and> changeType r = deleted)
          \<and> (\<forall>r \<in> set ?out. sourceFile r = f \<longrightarrow>
                changeType r = deleted \<and>
                ClarityFunction.truncate r \<in> set (parseClarityFunctions (getFileContent baseRef f) f))"
    if h: "getFileContent headRef f = []"
  proof (intro conjI ballI impI)
    fix func assume "func \<in> set (parseClarityFunctions (getFileContent baseRef f) f)"
    then have "func \<in> set (map ClarityFunction.truncate (?d f))"
      using detectFileChanges_removed(1) [where g = getFileContent and b = baseRef and fp = f and h = headRef, OF h] by simp
    then obtain r where r: "r \<in> set (?d f)" "ClarityFunction.truncate r = func" by auto
    then have "changeType r = deleted" using detectFileChanges_removed(2) [where g = getFileContent and b = baseRef and fp = f and h = headRef, OF h] by blast
    with r sub show "\<exists>r \<in> set ?out. ClarityFunction.truncate r = func \<and> changeType r = deleted"
      by blast
  next
    fix r assume "r \<in> set ?out" "sourceFile r = f"
    then have r: "r \<in> set (?d f)" by (rule from_f)
    then show "changeType r = deleted" using detectFileChanges_removed(2) [where g = getFileContent and b = baseRef and fp = f and h = headRef, OF h] by blast
    have "ClarityFunction.truncate r \<in> set (map ClarityFunction.truncate (?d f))"
      using r by simp
    then show "ClarityFunction.truncate r \<in> set (parseClarityFunctions (getFileContent baseRef f) f)"
      using detectFileChanges_removed(1) [where g = getFileContent and b = baseRef and fp = f and h = headRef, OF h] by simp
  qed
  have n: "getFileContent baseRef f = [] \<longrightarrow>
          (\<forall>func \<in> set (parseClarityFunctions (getFileContent headRef f) f).
              \<exists>r \<in> set ?out. ClarityFunction.truncate r = func \<and> changeType r = added)
          \<and> (\<forall>r \<in> set ?out. sourceFile r = f \<longrightarrow>
                changeType r = added \<and>
                ClarityFunction.truncate r \<in> set (parseClarityFunctions (getFileContent headRef f) f))"
    by (rule impI) (rule new)
  have d: "getFileContent headRef f = [] \<longrightarrow>
          (\<forall>func \<in> set (parseClarityFunctions (getFileContent baseRef f) f).
              \<exists>r \<in> set ?out. ClarityFunction.truncate r = func \<and> changeType r = deleted)
          \<and> (\<forall>r \<in> set ?out. sourceFile r = f \<longrightarrow>
                changeType r = deleted \<and>
                ClarityFunction.truncate r \<in> set (parseClarityFunctions (getFileContent baseRef f) f))"
    by (rule impI) (rule removed)
  show ?thesis
    by (rule exI [of _ ?out]) (rule conjI [OF out conjI [OF n d]])
qed

theorem detect_unavailable_side_witness:
  "\<exists>out. detectChangedFunctions (\<lambda>b h dirs. [''new.clar'', ''skip.clar'', ''old.clar''])
       (\<lambda>ref f. if (ref = ''main'' \<and> f = ''old.clar'') \<or> (ref = ''feature'' \<and> f = ''new.clar'')
                 then ''(define-public (f) (ok u1))'' else [])
       (\<lambda>pattern f. Inr (f = ''skip.clar'')) ''main'' ''feature'' [''contracts''] [''skip'']
       = Inr out
     \<and> (\<exists>r \<in> set out.
           ClarityFunction.truncate r =
             \<lparr> name = ''f'', type = ''public'', startLine = 1, endLine = 1,
               content = ''(define-public (f) (ok u1))'', sourceFile = ''new.clar'' \<rparr>
           \<and> changeType r = added)
     \<and> (\<exists>r \<in> set out.
           ClarityFunction.truncate r =
             \<lparr> name = ''f'', type = ''public'', startLine = 1, endLine = 1,
               content = ''(define-public (f) (ok u1))'', sourceFile = ''old.clar'' \<rparr>
           \<and> changeType r = deleted)"
  (is "\<exists>out. detectChangedFunctions ?gm ?gc ?pt ''main'' ''feature'' [''contracts''] [''skip'']
         = Inr out \<and> (\<exists>r \<in> set out. _ r = ?fn \<and> _) \<and> (\<exists>r \<in> set out. _ r = ?fo \<and> _)")
proof -
  have ff: "filterFiles ?pt [''skip''] (?gm ''main'' ''feature'' [''contracts''])
              = Inr [''new.clar'', ''old.clar'']"
    by simp
  have p: "parseClarityFunctions ''(define-public (f) (ok u1))'' fp =
             [\<lparr> name = ''f'', type = ''public'', startLine = 1, endLine = 1,
                content = ''(define-public (f) (ok u1))'', sourceFile = fp \<rparr>]" for fp
    by code_simp
  have bn: "?gc ''main'' ''new.clar'' = []" by simp
  have hn: "?fn \<in> set (parseClarityFunctions (?gc ''feature'' ''new.clar'') ''new.clar'')"
    by (simp add: p)
  have ho: "?gc ''feature'' ''old.clar'' = []" by simp
  have bo: "?fo \<in> set (parseClarityFunctions (?gc ''main'' ''old.clar'') ''old.clar'')"
    by (simp add: p)
  have inn: "''new.clar'' \<in> set [''new.clar'', ''old.clar'']" by simp
  have ino: "''old.clar'' \<in> set [''new.clar'', ''old.clar'']" by simp
  from detect_unavailable_side
      [where getModifiedFiles = ?gm and getFileContent = ?gc and patternTest = ?pt
        and baseRef = "''main''" and headRef = "''feature''" and contractsDir = "[''contracts'']"
        and excludedContracts = "[''skip'']" and files = "[''new.clar'', ''old.clar'']"
        and f = "''new.clar''", OF ff inn] obtain out where
    out: "detectChangedFunctions ?gm ?gc ?pt ''main'' ''feature'' [''contracts''] [''skip''] = Inr out"
    and n: "?gc ''main'' ''new.clar'' = [] \<longrightarrow>
          (\<forall>func \<in> set (parseClarityFunctions (?gc ''feature'' ''new.clar'') ''new.clar'').
              \<exists>r \<in> set out. ClarityFunction.truncate r = func \<and> changeType r = added)
          \<and> (\<forall>r \<in> set out. sourceFile r = ''new.clar'' \<longrightarrow>
                changeType r = added \<and>
                ClarityFunction.truncate r \<in>
                  set (parseClarityFunctions (?gc ''feature'' ''new.clar'') ''new.clar''))"
    by (elim exE conjE)
  from detect_unavailable_side
      [where getModifiedFiles = ?gm and getFileContent = ?gc and patternTest = ?pt
        and baseRef = "''main''" and headRef = "''feature''" and contractsDir = "[''contracts'']"
        and excludedContracts = "[''skip'']" and files = "[''new.clar'', ''old.clar'']"
        and f = "''old.clar''", OF ff ino] obtain out' where
    out': "detectChangedFunctions ?gm ?gc ?pt ''main'' ''feature'' [''contracts''] [''skip''] = Inr out'"
    and d: "?gc ''feature'' ''old.clar'' = [] \<longrightarrow>
          (\<forall>func \<in> set (parseClarityFunctions (?gc ''main'' ''old.clar'') ''old.clar'').
              \<exists>r \<in> set out'. ClarityFunction.truncate r = func \<and> changeType r = deleted)
          \<and> (\<forall>r \<in> set out'. sourceFile r = ''old.clar'' \<longrightarrow>
                changeType r = deleted \<and>
                ClarityFunction.truncate r \<in>
                  set (parseClarityFunctions (?gc ''main'' ''old.clar'') ''old.clar''))"
    by (elim exE conjE)
  have same: "out' = out" using out out' by simp
  have a: "\<exists>r \<in> set out. ClarityFunction.truncate r = ?fn \<and> changeType r = added"
    using n [THEN mp, OF bn, THEN conjunct1, THEN bspec, OF hn] .
  have b: "\<exists>r \<in> set out. ClarityFunction.truncate r = ?fo \<and> changeType r = deleted"
    using d [THEN mp, OF ho, THEN conjunct1, THEN bspec, OF bo] unfolding same .
  show ?thesis
    by (rule exI [of _ out]) (rule conjI [OF out conjI [OF a b]])
qed

end
